theory Spec2Isabelle
  imports Main "HOL-Library.Sublist" "HOL-Library.AList"
begin

section \<open>The Go backend of the IDL compiler: data model\<close>

text \<open>
  The development follows \<^verbatim>\<open>generator/golang/backend.go\<close> and the pre-processing pass
  of the trimmer. Go values of type \<^verbatim>\<open>error\<close> are represented by the text their
  \<^verbatim>\<open>Error()\<close> method returns; \<^verbatim>\<open>nil\<close> is \<open>None\<close>.
\<close>

type_synonym error = string

text \<open>
  The diagnostics sink \<^verbatim>\<open>backend.LogFunc\<close> is represented by the sequence of calls it
  has received, each with its variadic arguments.
\<close>

datatype LogEntry = Info "string list" | Warn "string list"

subsection \<open>The parsed schema graph\<close>

text \<open>
  The types of package \<^verbatim>\<open>parser\<close> are declared elsewhere; the fields the
  backend reads are kept under their names. A \<^verbatim>\<open>*parser.Thrift\<close> is an address into a
  store of programs, so that two include edges may point to one and the same program;
  \<^verbatim>\<open>nil\<close> is \<open>None\<close>.
\<close>

record Function =
  FnName :: string
  FnSignature :: string

record Service =
  SvcName :: string
  Functions :: "Function list"

record Include =
  Path :: string
  Reference :: "nat option"

record Thrift =
  Filename :: string
  Includes :: "Include list"
  Services :: "Service list"

type_synonym heap = "Thrift list"

definition deref :: "heap \<Rightarrow> nat \<Rightarrow> Thrift option" where
  "deref h p = (if p < length h then Some (h ! p) else None)"

subsection \<open>Scopes, features and utilities\<close>

type_synonym decl = string

record Scope =
  constants :: "decl list"
  typedefs :: "decl list"
  enums :: "decl list"
  structs :: "decl list"
  unions :: "decl list"
  exceptions :: "decl list"
  services :: "decl list"
  synthesized :: "decl list"

type_synonym ImportList = "(string \<times> string) list"

record Features =
  TrimIDL :: bool
  ThriftStreaming :: bool
  SkipGoGen :: bool
  NoDefaultSerdes :: bool
  KeepCodeRefName :: bool
  WithReflection :: bool
  SkipEmpty :: bool
  NoFmt :: bool

text \<open>
  \<^verbatim>\<open>CodeUtils\<close> is declared elsewhere. The model keeps what the backend reads
  from it (the features, the selected template name and the alternative templates) and
  the root scope that \<^verbatim>\<open>SetRootScope\<close> stores for the render-time helpers.
\<close>

record CodeUtils =
  features :: Features
  rootScope :: "Scope option"
  templateName :: string
  alternative :: "(string \<times> string list) list"

definition SetRootScope :: "CodeUtils \<Rightarrow> Scope \<Rightarrow> CodeUtils" where
  "SetRootScope cu s = cu\<lparr>rootScope := Some s\<rparr>"

subsection \<open>Templates\<close>

datatype TFunc = UtilFunc string | VersionFunc string

type_synonym FuncMap = "(string \<times> TFunc) list"

record Template =
  TName :: string
  TFuncs :: FuncMap
  TParsed :: "string list"

definition template_New :: "string \<Rightarrow> Template" where
  "template_New n = \<lparr>TName = n, TFuncs = [], TParsed = []\<rparr>"

definition Funcs :: "Template \<Rightarrow> FuncMap \<Rightarrow> Template" where
  "Funcs t fm = t\<lparr>TFuncs := fm @ TFuncs t\<rparr>"

datatype TData = ScopeData Scope | ImportsData ImportList

subsection \<open>Requests, responses and the backend\<close>

record Request =
  AST :: nat
  GeneratorParameters :: "string list"
  OutputPath :: string
  Recursive :: bool
  Version :: string

record Generated =
  Content :: string
  Name :: "string option"
  InsertionPoint :: "string option"

record Response =
  Error :: "string option"
  Contents :: "Generated list"

text \<open>
  Modelled from the spec: \<^verbatim>\<open>plugin.NewResponse\<close> and \<^verbatim>\<open>plugin.BuildErrorResponse\<close> are
  declared with the \<^verbatim>\<open>Response\<close> type in package \<^verbatim>\<open>plugin\<close>. The output of a request is
  either a Generation Response, an ordered list of Artifacts (empty when fresh), or an
  Error Response carrying one human-readable error string.
\<close>

definition NewResponse :: Response where
  "NewResponse = \<lparr>Error = None, Contents = []\<rparr>"

definition BuildErrorResponse :: "string \<Rightarrow> Response" where
  "BuildErrorResponse errMsg = \<lparr>Error = Some errMsg, Contents = []\<rparr>"

record TrimResult =
  StructsTrimmed :: int
  FieldsTrimmed :: int
  StructsTotal :: int
  FieldsTotal :: int

text \<open>
  The backend. The fields that are pointers in Go (templates, request, response,
  utilities) hold the value pointed to; \<^verbatim>\<open>Generate\<close> assigns the request, the response
  and the log before anything reads them, and the utilities and the templates are
  assigned before their first use on every path that starts from the zero value.
\<close>

record GoBackend =
  err :: "error option"
  tpl :: Template
  refTpl :: Template
  reflectionTpl :: Template
  reflectionRefTpl :: Template
  req :: Request
  res :: Response
  log :: "LogEntry list"
  utils :: CodeUtils
  funcs :: FuncMap

text \<open>
  The collaborators of the backend that live in other packages (option handling, the
  trimmer's entry point, the streaming classifier, scope building, import resolution,
  the template engine, path handling and the Go source formatter) are parameters of the
  model. Each is a function of what it is given and of the state it reads (the
  utilities, the store of programs); what a collaborator keeps for itself, such as a
  cache, and what it may write to the log are not represented. A collaborator that can
  fail returns \<open>Inl\<close> with the error; the trimmer also returns the store as it left it.
  \<open>SprintfRemoved\<close> and \<open>SprintfStats\<close> stand for the two \<^verbatim>\<open>fmt.Sprintf\<close> calls that
  format the trim report, the second of which prints floating-point percentages.
\<close>

record env =
  NewCodeUtils :: CodeUtils
  HandleOptions :: "CodeUtils \<Rightarrow> string list \<Rightarrow> error option \<times> CodeUtils"
  BuildFuncMap :: "CodeUtils \<Rightarrow> FuncMap"
  TrimAST :: "heap \<Rightarrow> nat \<Rightarrow> (error + TrimResult) \<times> heap"
  SprintfRemoved :: "TrimResult \<Rightarrow> string"
  SprintfStats :: "TrimResult \<Rightarrow> string"
  ParseStreaming :: "Function \<Rightarrow> error + bool"
  Templates :: "string list"
  NoDefaultCodecExtension :: "string list"
  defaultTemplate :: string
  ref_File :: string
  reflection_File :: string
  reflection_FileRef :: string
  Parse :: "Template \<Rightarrow> string \<Rightarrow> error + Template"
  CombineOutputPath :: "CodeUtils \<Rightarrow> string \<Rightarrow> heap \<Rightarrow> nat \<Rightarrow> string"
  GetFilename :: "CodeUtils \<Rightarrow> heap \<Rightarrow> nat \<Rightarrow> string"
  Join :: "string \<Rightarrow> string \<Rightarrow> string"
  BuildRefScope :: "CodeUtils \<Rightarrow> heap \<Rightarrow> nat \<Rightarrow> error + (Scope option \<times> Scope option)"
  ResolveImports :: "Scope \<Rightarrow> error + ImportList"
  ExecuteTemplate :: "CodeUtils \<Rightarrow> Template \<Rightarrow> string \<Rightarrow> TData \<Rightarrow> error + string"
  format_Source :: "string \<Rightarrow> error + string"

definition warn :: "GoBackend \<Rightarrow> string list \<Rightarrow> GoBackend" where
  "warn g args = g\<lparr>log := log g @ [Warn args]\<rparr>"

definition info :: "GoBackend \<Rightarrow> string list \<Rightarrow> GoBackend" where
  "info g args = g\<lparr>log := log g @ [Info args]\<rparr>"

section \<open>File names of the companion artifacts\<close>

text \<open>\<^verbatim>\<open>strings.TrimSuffix\<close>: the string without the suffix when it ends with it.\<close>

definition TrimSuffix :: "string \<Rightarrow> string \<Rightarrow> string" where
  "TrimSuffix s suf = (if suffix suf s then take (length s - length suf) s else s)"

definition ToRefFilename :: "bool \<Rightarrow> string \<Rightarrow> string" where
  "ToRefFilename keepName filename =
     (if keepName then filename else TrimSuffix filename ''.go'' @ ''-ref.go'')"

definition ToReflectionFilename :: "string \<Rightarrow> string" where
  "ToReflectionFilename filename = TrimSuffix filename ''.go'' @ ''-reflection.go''"

definition ToReflectionRefFilename :: "bool \<Rightarrow> string \<Rightarrow> string" where
  "ToReflectionRefFilename keepName filename =
     (if keepName then ToReflectionFilename filename
      else TrimSuffix filename ''.go'' @ ''-reflection-ref.go'')"

section \<open>Rendering one scope\<close>

definition IsEmpty :: "Scope \<Rightarrow> bool" where
  "IsEmpty s =
     (if length (constants s) = 0 \<and>
         length (typedefs s) = 0 \<and>
         length (enums s) = 0 \<and>
         length (structs s) = 0 \<and>
         length (unions s) = 0 \<and>
         length (exceptions s) = 0 \<and>
         length (services s) = 0 \<and>
         length (synthesized s) = 0
      then True else False)"

definition appendContent :: "GoBackend \<Rightarrow> Generated \<Rightarrow> GoBackend" where
  "appendContent g a = g\<lparr>res := (res g)\<lparr>Contents := Contents (res g) @ [a]\<rparr>\<rparr>"

text \<open>
  \<^verbatim>\<open>renderByTemplate\<close> returns its error and the backend it leaves behind. The scratch
  buffer taken from the pool is reset before each use, so the text it holds is exactly
  what the template engine wrote in that call.
\<close>

definition renderByTemplate ::
  "env \<Rightarrow> GoBackend \<Rightarrow> Scope option \<Rightarrow> Template \<Rightarrow> string \<Rightarrow> error option \<times> GoBackend" where
  "renderByTemplate e g scope executeTpl filename =
     (case scope of
        None \<Rightarrow> (None, g)
      | Some s \<Rightarrow>
          (if SkipEmpty (features (utils g)) \<and> IsEmpty s then (None, g)
           else
             (let g1 = g\<lparr>utils := SetRootScope (utils g) s\<rparr> in
              (case ExecuteTemplate e (utils g1) executeTpl (TName executeTpl) (ScopeData s) of
                 Inl x \<Rightarrow> (Some (filename @ '': '' @ x), g1)
               | Inr w \<Rightarrow>
                   (let g2 = appendContent g1
                               \<lparr>Content = w, Name = Some filename, InsertionPoint = None\<rparr> in
                    (case ResolveImports e s of
                       Inl x \<Rightarrow> (Some x, g2)
                     | Inr imports \<Rightarrow>
                         (case ExecuteTemplate e (utils g2) executeTpl ''Imports''
                                 (ImportsData imports) of
                            Inl x \<Rightarrow> (Some (filename @ '': '' @ x), g2)
                          | Inr w2 \<Rightarrow>
                              (None, appendContent g2
                                 \<lparr>Content = w2, Name = None,
                                  InsertionPoint = Some ''imports''\<rparr>))))))))"

section \<open>Post-processing\<close>

text \<open>
  \<^verbatim>\<open>filepath.Ext\<close>: the suffix beginning at the final dot in the final
  slash-separated element of the path, empty when there is no dot. The scan runs from
  the end of the path; \<open>Ext_scan\<close> reads the reversed path and collects what it passed.
\<close>

fun Ext_scan :: "string \<Rightarrow> string \<Rightarrow> string" where
  "Ext_scan [] acc = []"
| "Ext_scan (c # cs) acc =
     (if c = CHR ''/'' then []
      else if c = CHR ''.'' then c # acc
      else Ext_scan cs (c # acc))"

definition Ext :: "string \<Rightarrow> string" where
  "Ext path = Ext_scan (rev path) []"

text \<open>\<^verbatim>\<open>PostProcess\<close> returns the content, the error and the backend (for its log).\<close>

definition PostProcess ::
  "env \<Rightarrow> GoBackend \<Rightarrow> string \<Rightarrow> string \<Rightarrow> string \<times> error option \<times> GoBackend" where
  "PostProcess e g path content =
     (if NoFmt (features (utils g)) then (content, None, g)
      else if Ext path = ''.go'' then
        (case format_Source e content of
           Inl x \<Rightarrow> (content, None, warn g [''Failed to format '' @ path @ '': '' @ x])
         | Inr formated \<Rightarrow> (formated, None, g))
      else (content, None, g))"

section \<open>The capability filter\<close>

text \<open>
  A Go panic ends the run without a response. \<^verbatim>\<open>template.Must\<close> panics with the error of
  a template that does not parse; reading a field through a \<^verbatim>\<open>nil\<close> pointer and
  assigning into a \<^verbatim>\<open>nil\<close> map panic as well.
\<close>

datatype panic = NilPointerDereference | NilMapAssignment | TemplateMust error

definition msgParseFailed :: "string \<Rightarrow> Function \<Rightarrow> error \<Rightarrow> string" where
  "msgParseFailed svc f x = svc @ ''.'' @ FnName f @ '': failed to parse streaming, err = '' @ x"

definition msgSkipStreaming :: "string \<Rightarrow> Function \<Rightarrow> string" where
  "msgSkipStreaming svc f =
     ''skip streaming function '' @ svc @ ''.'' @ FnName f @
     '': not supported by your kitex, please update your kitex tool to the latest version''"

text \<open>The inner loop of \<^verbatim>\<open>removeStreamingFunctions\<close>, over the functions of one service.\<close>

fun filterFunctions ::
  "env \<Rightarrow> string \<Rightarrow> Function list \<Rightarrow> Function list \<Rightarrow> GoBackend \<Rightarrow> Function list \<times> GoBackend" where
  "filterFunctions e svc [] functions g = (functions, g)"
| "filterFunctions e svc (f # fs) functions g =
     (case ParseStreaming e f of
        Inl x \<Rightarrow> filterFunctions e svc fs functions (warn g [msgParseFailed svc f x])
      | Inr isStreaming \<Rightarrow>
          (if isStreaming then filterFunctions e svc fs functions (warn g [msgSkipStreaming svc f])
           else filterFunctions e svc fs (functions @ [f]) g))"

text \<open>The outer loop, over the services of the program; each service keeps its place.\<close>

fun filterServices :: "env \<Rightarrow> Service list \<Rightarrow> GoBackend \<Rightarrow> Service list \<times> GoBackend" where
  "filterServices e [] g = ([], g)"
| "filterServices e (svc # svcs) g =
     (case filterFunctions e (SvcName svc) (Functions svc) [] g of
        (functions, g1) \<Rightarrow>
          (case filterServices e svcs g1 of
             (svcs', g2) \<Rightarrow> (svc\<lparr>Functions := functions\<rparr> # svcs', g2)))"

definition removeStreamingFunctions ::
  "env \<Rightarrow> GoBackend \<Rightarrow> heap \<Rightarrow> nat \<Rightarrow> panic + (GoBackend \<times> heap)" where
  "removeStreamingFunctions e g h ast =
     (case deref h ast of
        None \<Rightarrow> Inl NilPointerDereference
      | Some t \<Rightarrow>
          (case filterServices e (Services t) g of
             (svcs, g1) \<Rightarrow> Inr (g1, h[ast := t\<lparr>Services := svcs\<rparr>])))"

section \<open>The program graph walker\<close>

text \<open>
  Modelled from the spec: \<^verbatim>\<open>DepthFirstSearch\<close> belongs to package \<^verbatim>\<open>parser\<close>, whose
  code is not at hand. Given the root program it produces a deduplicated sequence of the programs
  reachable via include edges, root included; deduplication is by file identity (the
  address), and a descendant is never emitted before it is first discovered. The stack
  holds the references still to follow; \<open>visited\<close> is the sequence emitted so far.
\<close>

function dfs :: "heap \<Rightarrow> nat option list \<Rightarrow> nat list \<Rightarrow> nat list" where
  "dfs h [] visited = visited"
| "dfs h (r # stack) visited =
     (case r of
        None \<Rightarrow> dfs h stack visited
      | Some p \<Rightarrow>
          (if p \<in> set visited \<or> length h \<le> p then dfs h stack visited
           else dfs h (map Reference (Includes (h ! p)) @ stack) (visited @ [p])))"
  by pat_completeness auto
termination
  apply (relation "measures [\<lambda>(h, stack, visited). card ({..<length h} - set visited),
                             \<lambda>(h, stack, visited). length stack]")
  subgoal by simp
  subgoal by simp
  subgoal by simp
  subgoal for h r stack visited p
  proof -
    assume a: "\<not> (p \<in> set visited \<or> length h \<le> p)"
    let ?U = "{..<length h} - set visited"
    have fin: "finite ?U" by simp
    have mem: "p \<in> ?U" using a by simp
    have eq: "{..<length h} - set (visited @ [p]) = ?U - {p}"
      by auto
    have "card (?U - {p}) < card ?U"
      using fin mem by (rule card_Diff1_less)
    then have "card ({..<length h} - set (visited @ [p])) < card ?U"
      by (simp only: eq)
    then show ?thesis by simp
  qed
  done

definition DepthFirstSearch :: "heap \<Rightarrow> nat \<Rightarrow> nat list" where
  "DepthFirstSearch h root = dfs h [Some root] []"

section \<open>Generation\<close>

definition prepareUtilities :: "env \<Rightarrow> GoBackend \<Rightarrow> GoBackend" where
  "prepareUtilities e g =
     (if err g \<noteq> None then g
      else
        (case HandleOptions e (NewCodeUtils e) (GeneratorParameters (req g)) of
           (x, cu) \<Rightarrow>
             (let g1 = g\<lparr>utils := cu, err := x\<rparr> in
              if err g1 \<noteq> None then g1
              else g1\<lparr>funcs := AList.update ''Version'' (VersionFunc (Version (req g1)))
                                  (BuildFuncMap e cu)\<rparr>)))"

definition Must :: "error + Template \<Rightarrow> panic + Template" where
  "Must r = (case r of Inl x \<Rightarrow> Inl (TemplateMust x) | Inr t \<Rightarrow> Inr t)"

fun parseAll :: "env \<Rightarrow> Template \<Rightarrow> string list \<Rightarrow> panic + Template" where
  "parseAll e all [] = Inr all"
| "parseAll e all (t # tpls) =
     (case Must (Parse e all t) of
        Inl p \<Rightarrow> Inl p
      | Inr all' \<Rightarrow> parseAll e all' tpls)"

definition prepareTemplates :: "env \<Rightarrow> GoBackend \<Rightarrow> panic + GoBackend" where
  "prepareTemplates e g =
     (if err g \<noteq> None then Inr g
      else
        (let all = Funcs (template_New ''thrift'') (funcs g);
             tpls = Templates e;
             tpls = (if NoDefaultSerdes (features (utils g))
                     then Templates e @ NoDefaultCodecExtension e else tpls);
             tpls = (if templateName (utils g) \<noteq> defaultTemplate e
                     then (case map_of (alternative (utils g)) (templateName (utils g)) of
                             None \<Rightarrow> [] | Some ts \<Rightarrow> ts)
                     else tpls)
         in
         (case parseAll e all tpls of
            Inl p \<Rightarrow> Inl p
          | Inr all' \<Rightarrow>
              (case Must (Parse e (Funcs (template_New ''thrift-ref'') (funcs g)) (ref_File e)) of
                 Inl p \<Rightarrow> Inl p
               | Inr t1 \<Rightarrow>
                   (case Must (Parse e (Funcs (template_New ''thrift-reflection'') (funcs g))
                                 (reflection_File e)) of
                      Inl p \<Rightarrow> Inl p
                    | Inr t2 \<Rightarrow>
                        (case Must (Parse e (Funcs (template_New ''thrift-reflection-util'') (funcs g))
                                      (reflection_FileRef e)) of
                           Inl p \<Rightarrow> Inl p
                         | Inr t3 \<Rightarrow>
                             Inr (g\<lparr>tpl := all', refTpl := t1, reflectionTpl := t2,
                                    reflectionRefTpl := t3\<rparr>)))))))"

definition fillRequisitions :: "GoBackend \<Rightarrow> GoBackend" where
  "fillRequisitions g = (if err g \<noteq> None then g else g)"

definition renderOneFile :: "env \<Rightarrow> heap \<Rightarrow> GoBackend \<Rightarrow> nat \<Rightarrow> error option \<times> GoBackend" where
  "renderOneFile e h g ast =
     (let keepName = KeepCodeRefName (features (utils g));
          path = CombineOutputPath e (utils g) (OutputPath (req g)) h ast;
          filename = Join e path (GetFilename e (utils g) h ast)
      in
      (case BuildRefScope e (utils g) h ast of
         Inl x \<Rightarrow> (Some x, g)
       | Inr (localScope, refScope) \<Rightarrow>
           (case renderByTemplate e g localScope (tpl g) filename of
              (Some x, g1) \<Rightarrow> (Some x, g1)
            | (None, g1) \<Rightarrow>
                (case renderByTemplate e g1 refScope (refTpl g1) (ToRefFilename keepName filename) of
                   (Some x, g2) \<Rightarrow> (Some x, g2)
                 | (None, g2) \<Rightarrow>
                     (if WithReflection (features (utils g2)) then
                        (case renderByTemplate e g2 refScope (reflectionRefTpl g2)
                                (ToReflectionRefFilename keepName filename) of
                           (Some x, g3) \<Rightarrow> (Some x, g3)
                         | (None, g3) \<Rightarrow>
                             renderByTemplate e g3 localScope (reflectionTpl g3)
                               (ToReflectionFilename filename))
                      else (None, g2))))))"

text \<open>
  The loop of \<^verbatim>\<open>executeTemplates\<close> over the programs the walker delivers.
  \<open>processed\<close> is the set of addresses whose entry in the map is true. Beside the backend,
  the loop returns the calls of \<^verbatim>\<open>renderOneFile\<close> it made, in order, each with the
  address it was given and the error it returned: a record of the run that changes
  nothing in it.
\<close>

type_synonym calls = "(nat \<times> error option) list"

fun executeTemplates_loop ::
  "env \<Rightarrow> heap \<Rightarrow> nat list \<Rightarrow> nat set \<Rightarrow> GoBackend \<Rightarrow> calls \<Rightarrow> panic + (GoBackend \<times> calls)" where
  "executeTemplates_loop e h [] processed g cs = Inr (g, cs)"
| "executeTemplates_loop e h (ast # trees) processed g cs =
     (if ast \<in> processed then executeTemplates_loop e h trees processed g cs
      else
        (case deref h ast of
           None \<Rightarrow> Inl NilPointerDereference
         | Some t \<Rightarrow>
             (case renderOneFile e h (info g [''Processing'', Filename t]) ast of
                (x, g1) \<Rightarrow>
                  (if x \<noteq> None then Inr (g1\<lparr>err := x\<rparr>, cs @ [(ast, x)])
                   else executeTemplates_loop e h trees (insert ast processed)
                          (g1\<lparr>err := x\<rparr>) (cs @ [(ast, x)])))))"

definition executeTemplates :: "env \<Rightarrow> heap \<Rightarrow> GoBackend \<Rightarrow> panic + (GoBackend \<times> calls)" where
  "executeTemplates e h g =
     (if err g \<noteq> None then Inr (g, [])
      else
        (let trees = (if Recursive (req g) then DepthFirstSearch h (AST (req g))
                      else [AST (req g)])
         in executeTemplates_loop e h trees {} g []))"

definition buildResponse :: "GoBackend \<Rightarrow> Response" where
  "buildResponse g = (case err g of Some x \<Rightarrow> BuildErrorResponse x | None \<Rightarrow> res g)"

text \<open>
  \<^verbatim>\<open>Generate\<close>, from the capability filter on. The heap is the store of programs as the
  trimmer left it.
\<close>

definition Generate_filtered ::
  "env \<Rightarrow> GoBackend \<Rightarrow> heap \<Rightarrow> panic + (Response \<times> GoBackend \<times> heap \<times> calls)" where
  "Generate_filtered e g h =
     (case (if \<not> ThriftStreaming (features (utils g))
            then removeStreamingFunctions e g h (AST (req g)) else Inr (g, h)) of
        Inl p \<Rightarrow> Inl p
      | Inr (g1, h1) \<Rightarrow>
          (if SkipGoGen (features (utils g1)) then
             (let g2 = warn g1 [''You are skipping Thriftgo Go Code Generating'']
              in Inr (buildResponse g2, g2, h1, []))
           else
             (case prepareTemplates e g1 of
                Inl p \<Rightarrow> Inl p
              | Inr g2 \<Rightarrow>
                  (case executeTemplates e h1 (fillRequisitions g2) of
                     Inl p \<Rightarrow> Inl p
                   | Inr (g3, cs) \<Rightarrow> Inr (buildResponse g3, g3, h1, cs)))))"

text \<open>
  \<^verbatim>\<open>Generate\<close> runs on the backend as the previous request left it (the zero value for
  the first), with the request, the log sink and the store of programs. It returns the
  response, the backend, the store as the in-place changes left it, and the calls of
  \<^verbatim>\<open>renderOneFile\<close> of the run.
\<close>

definition Generate ::
  "env \<Rightarrow> GoBackend \<Rightarrow> Request \<Rightarrow> LogEntry list \<Rightarrow> heap
     \<Rightarrow> panic + (Response \<times> GoBackend \<times> heap \<times> calls)" where
  "Generate e g0 rq lg h =
     (let g = prepareUtilities e (g0\<lparr>req := rq, res := NewResponse, log := lg\<rparr>) in
      if TrimIDL (features (utils g)) then
        (let g1 = warn g [''You Are Using IDL Trimmer''] in
         (case TrimAST e h (AST rq) of
            (Inl x, h1) \<Rightarrow>
              (let g2 = (warn g1 [''trim error:'', x])\<lparr>err := Some x\<rparr>
               in Inr (buildResponse g2, g2, h1, []))
          | (Inr tr, h1) \<Rightarrow>
              Generate_filtered e (warn (warn g1 [SprintfRemoved e tr]) [SprintfStats e tr]) h1))
      else Generate_filtered e g h)"

section \<open>The trimmer's pre-processing pass\<close>

text \<open>
  The Mark Sets of the trimmer, \<^verbatim>\<open>t.marks\<close>, map a file name to the set of kept nodes of
  the schema graph. A node is identified by its pointer: the include edge
  \<^verbatim>\<open>ast.Includes[i]\<close> by the address of its program and its position, any other
  declaration by the address of its program and a number.
\<close>

datatype node = IncludeNode nat nat | DeclNode nat nat

record Trimmer =
  marks :: "string \<rightharpoonup> node set"

text \<open>
  \<^verbatim>\<open>markKeptPart\<close> is defined elsewhere in the trimmer; it is a parameter here. It is given the
  store, the trimmer, the address of the program and the file name, and returns whether
  it marked something, with the trimmer it leaves behind.
\<close>

type_synonym markKeptPart = "heap \<Rightarrow> Trimmer \<Rightarrow> nat \<Rightarrow> string \<Rightarrow> bool \<times> Trimmer"

text \<open>
  \<^verbatim>\<open>t.marks[filename][ast.Includes[i]] = struct{}{}\<close>: an assignment into the inner map,
  which panics when the outer map has no entry for the file name.
\<close>

definition markInclude :: "Trimmer \<Rightarrow> string \<Rightarrow> nat \<Rightarrow> nat \<Rightarrow> panic + Trimmer" where
  "markInclude t filename a i =
     (case marks t filename of
        None \<Rightarrow> Inl NilMapAssignment
      | Some s \<Rightarrow> Inr (t\<lparr>marks := (marks t)(filename \<mapsto> insert (IncludeNode a i) s)\<rparr>))"

text \<open>
  \<^verbatim>\<open>preProcess\<close> recurses along the include edges and keeps no record of the programs it
  has visited, so it returns only on an acyclic graph. The first argument bounds the
  depth of the recursion; \<open>None\<close> means that the bound was reached. The loop over the
  include edges of the program at address \<open>a\<close> takes the edges with their positions.
\<close>

fun preProcess ::
    "nat \<Rightarrow> markKeptPart \<Rightarrow> heap \<Rightarrow> Trimmer \<Rightarrow> nat option \<Rightarrow> string
       \<Rightarrow> (panic + bool \<times> Trimmer) option"
  and preProcess_includes ::
    "nat \<Rightarrow> markKeptPart \<Rightarrow> heap \<Rightarrow> string \<Rightarrow> nat \<Rightarrow> (nat \<times> Include) list \<Rightarrow> bool \<Rightarrow> Trimmer
       \<Rightarrow> (panic + bool \<times> Trimmer) option" where
  "preProcess n mk h t None filename = Some (Inl NilPointerDereference)"
| "preProcess n mk h t (Some a) filename =
     (case deref h a of
        None \<Rightarrow> Some (Inl NilPointerDereference)
      | Some ast \<Rightarrow>
          (case mk h t a filename of
             (ret, t1) \<Rightarrow>
               preProcess_includes n mk h filename a (enumerate 0 (Includes ast)) ret t1))"
| "preProcess_includes n mk h filename a [] ret t = Some (Inr (ret, t))"
| "preProcess_includes 0 mk h filename a ((i, include) # rest) ret t = None"
| "preProcess_includes (Suc n) mk h filename a ((i, include) # rest) ret t =
     (case preProcess n mk h t (Reference include) filename of
        None \<Rightarrow> None
      | Some (Inl p) \<Rightarrow> Some (Inl p)
      | Some (Inr (marked, t1)) \<Rightarrow>
          (if marked then
             (case markInclude t1 filename a i of
                Inl p \<Rightarrow> Some (Inl p)
              | Inr t2 \<Rightarrow> preProcess_includes (Suc n) mk h filename a rest True t2)
           else preProcess_includes (Suc n) mk h filename a rest ret t1))"

text \<open>
  What the development assumes of \<^verbatim>\<open>markKeptPart\<close>: marking is monotonic. A Mark Set
  that exists stays, and a node once marked kept is never unmarked.
\<close>

definition grows :: "Trimmer \<Rightarrow> Trimmer \<Rightarrow> bool" where
  "grows t t' = (\<forall>k s. marks t k = Some s \<longrightarrow> (\<exists>s'. marks t' k = Some s' \<and> s \<subseteq> s'))"

definition monotonic :: "markKeptPart \<Rightarrow> bool" where
  "monotonic mk = (\<forall>h t a f. grows t (snd (mk h t a f)))"

text \<open>
  An include graph is acyclic when its programs can be ranked so that every include
  edge leads to a program of lower rank.
\<close>

definition ranked :: "heap \<Rightarrow> (nat \<Rightarrow> nat) \<Rightarrow> bool" where
  "ranked h rank =
     (\<forall>a < length h. \<forall>inc \<in> set (Includes (h ! a)).
        \<forall>r. Reference inc = Some r \<longrightarrow> rank r < rank a)"

section \<open>Example inputs\<close>

text \<open>
  A concrete set of collaborators and a few small schema graphs, on which the theorems
  below are instantiated. Option handling switches one feature per parameter and rejects
  an unknown parameter; the trimmer leaves the store alone and fails on the file
  \<^verbatim>\<open>broken.thrift\<close>; a function is streaming when its signature says so; the template
  engine prints the template name and the declarations of the scope, and fails on a
  service named \<^verbatim>\<open>!\<close>; the formatter rejects the content \<^verbatim>\<open>bad\<close>.
\<close>

definition setFeature :: "(Features \<Rightarrow> Features) \<Rightarrow> CodeUtils \<Rightarrow> CodeUtils" where
  "setFeature f cu = cu\<lparr>features := f (features cu)\<rparr>"

fun exHandleOptions :: "CodeUtils \<Rightarrow> string list \<Rightarrow> error option \<times> CodeUtils" where
  "exHandleOptions cu [] = (None, cu)"
| "exHandleOptions cu (p # ps) =
     (if p = ''trim_idl'' then exHandleOptions (setFeature (\<lambda>f. f\<lparr>TrimIDL := True\<rparr>) cu) ps
      else if p = ''streaming'' then exHandleOptions (setFeature (\<lambda>f. f\<lparr>ThriftStreaming := True\<rparr>) cu) ps
      else if p = ''skip_go_gen'' then exHandleOptions (setFeature (\<lambda>f. f\<lparr>SkipGoGen := True\<rparr>) cu) ps
      else if p = ''keep_name'' then exHandleOptions (setFeature (\<lambda>f. f\<lparr>KeepCodeRefName := True\<rparr>) cu) ps
      else if p = ''reflection'' then exHandleOptions (setFeature (\<lambda>f. f\<lparr>WithReflection := True\<rparr>) cu) ps
      else if p = ''skip_empty'' then exHandleOptions (setFeature (\<lambda>f. f\<lparr>SkipEmpty := True\<rparr>) cu) ps
      else if p = ''no_fmt'' then exHandleOptions (setFeature (\<lambda>f. f\<lparr>NoFmt := True\<rparr>) cu) ps
      else (Some (''unknown option '' @ p), cu))"

definition exFeatures :: Features where
  "exFeatures = \<lparr>TrimIDL = False, ThriftStreaming = False, SkipGoGen = False,
                  NoDefaultSerdes = False, KeepCodeRefName = False, WithReflection = False,
                  SkipEmpty = False, NoFmt = False\<rparr>"

definition exUtils :: CodeUtils where
  "exUtils = \<lparr>features = exFeatures, rootScope = None, templateName = ''default'',
               alternative = []\<rparr>"

definition exScope :: "decl list \<Rightarrow> decl list \<Rightarrow> decl list \<Rightarrow> Scope" where
  "exScope svcs fns incs =
     \<lparr>constants = [], typedefs = [], enums = [], structs = incs, unions = [],
      exceptions = [], services = svcs, synthesized = fns\<rparr>"

definition exLocalScope :: "Thrift \<Rightarrow> Scope" where
  "exLocalScope t =
     exScope (map SvcName (Services t))
       (concat (map (\<lambda>s. map (\<lambda>f. SvcName s @ ''.'' @ FnName f) (Functions s)) (Services t)))
       []"

definition exRefScope :: "Thrift \<Rightarrow> Scope" where
  "exRefScope t = exScope [] [] (map Path (Includes t))"

definition exBuildRefScope ::
  "CodeUtils \<Rightarrow> heap \<Rightarrow> nat \<Rightarrow> error + (Scope option \<times> Scope option)" where
  "exBuildRefScope cu h p =
     (case deref h p of
        None \<Rightarrow> Inl ''no program''
      | Some t \<Rightarrow>
          (if Filename t = ''unresolved.thrift'' then Inl ''unresolved.thrift: unknown type''
           else Inr (Some (exLocalScope t), Some (exRefScope t))))"

definition exExecuteTemplate :: "CodeUtils \<Rightarrow> Template \<Rightarrow> string \<Rightarrow> TData \<Rightarrow> error + string" where
  "exExecuteTemplate cu t n d =
     (case d of
        ScopeData s \<Rightarrow>
          (if ''!'' \<in> set (services s) then Inl ''template failed''
           else Inr (n @ '':'' @ concat (services s @ synthesized s @ structs s)))
      | ImportsData is \<Rightarrow> Inr (n @ '':'' @ concat (map fst is)))"

definition exFilename :: "heap \<Rightarrow> nat \<Rightarrow> string" where
  "exFilename h p = (case deref h p of None \<Rightarrow> [] | Some t \<Rightarrow> Filename t)"

definition exEnv :: env where
  "exEnv =
     \<lparr>NewCodeUtils = exUtils,
      HandleOptions = exHandleOptions,
      BuildFuncMap = (\<lambda>cu. [(''GoName'', UtilFunc ''GoName'')]),
      TrimAST = (\<lambda>h p. (if exFilename h p = ''broken.thrift''
                         then Inl ''broken.thrift: dangling reference''
                         else Inr \<lparr>StructsTrimmed = 0, FieldsTrimmed = 0,
                                   StructsTotal = 0, FieldsTotal = 0\<rparr>, h)),
      SprintfRemoved = (\<lambda>tr. ''removed unused structures''),
      SprintfStats = (\<lambda>tr. ''structs and fields''),
      ParseStreaming = (\<lambda>f. if FnSignature f = ''stream'' then Inr True
                              else if FnSignature f = ''?'' then Inl ''unknown mode''
                              else Inr False),
      Templates = [''file''],
      NoDefaultCodecExtension = [''slim''],
      defaultTemplate = ''default'',
      ref_File = ''ref'',
      reflection_File = ''reflection'',
      reflection_FileRef = ''reflection-ref'',
      Parse = (\<lambda>t s. if s = [] then Inl ''empty template''
                       else Inr (t\<lparr>TParsed := TParsed t @ [s]\<rparr>)),
      CombineOutputPath = (\<lambda>cu out h p. out),
      GetFilename = (\<lambda>cu h p. TrimSuffix (exFilename h p) ''.thrift'' @ ''.go''),
      Join = (\<lambda>a b. a @ ''/'' @ b),
      BuildRefScope = exBuildRefScope,
      ResolveImports = (\<lambda>s. Inr (map (\<lambda>d. (d, d)) (structs s))),
      ExecuteTemplate = exExecuteTemplate,
      format_Source = (\<lambda>c. if c = ''bad'' then Inl ''syntax error''
                             else Inr (c @ ''; formatted''))\<rparr>"

definition exTemplate :: Template where
  "exTemplate = template_New []"

definition exRequest :: "string list \<Rightarrow> bool \<Rightarrow> Request" where
  "exRequest params recursive =
     \<lparr>AST = 0, GeneratorParameters = params, OutputPath = ''out'', Recursive = recursive,
      Version = ''0.3''\<rparr>"

text \<open>The zero value of the backend.\<close>

definition exBackend :: GoBackend where
  "exBackend =
     \<lparr>err = None, tpl = exTemplate, refTpl = exTemplate, reflectionTpl = exTemplate,
      reflectionRefTpl = exTemplate, req = exRequest [] False, res = NewResponse, log = [],
      utils = exUtils, funcs = []\<rparr>"

definition exFunction :: "string \<Rightarrow> string \<Rightarrow> Function" where
  "exFunction n sig = \<lparr>FnName = n, FnSignature = sig\<rparr>"

definition exProgram :: "string \<Rightarrow> (string \<times> nat) list \<Rightarrow> Service list \<Rightarrow> Thrift" where
  "exProgram n incs svcs =
     \<lparr>Filename = n, Includes = map (\<lambda>(p, r). \<lparr>Path = p, Reference = Some r\<rparr>) incs,
      Services = svcs\<rparr>"

text \<open>
  \<^verbatim>\<open>order.thrift\<close> includes \<^verbatim>\<open>common.thrift\<close>; the service of the first has a unary and a
  streaming function, the service of the second one streaming function.
\<close>

definition exOrderHeap :: heap where
  "exOrderHeap =
     [exProgram ''order.thrift'' [(''common.thrift'', 1)]
        [\<lparr>SvcName = ''OrderService'',
          Functions = [exFunction ''GetOrder'' ''unary'', exFunction ''Watch'' ''stream'']\<rparr>],
      exProgram ''common.thrift'' []
        [\<lparr>SvcName = ''Audit'', Functions = [exFunction ''Tail'' ''stream'']\<rparr>]]"

text \<open>
  A diamond: the root includes \<^verbatim>\<open>left.thrift\<close> and \<^verbatim>\<open>right.thrift\<close>, both of which
  include the shared file at address 3.
\<close>

definition exDiamondHeap :: heap where
  "exDiamondHeap =
     [exProgram ''root.thrift'' [(''left'', 1), (''right'', 2)] [],
      exProgram ''left.thrift'' [(''shared'', 3)] [],
      exProgram ''right.thrift'' [(''shared'', 3)] [],
      exProgram ''shared.thrift'' [] []]"

text \<open>The root renders; the file it includes has a service the template engine fails on.\<close>

definition exFailingHeap :: heap where
  "exFailingHeap =
     [exProgram ''a.thrift'' [(''b.thrift'', 1)]
        [\<lparr>SvcName = ''A'', Functions = [exFunction ''Get'' ''unary'']\<rparr>],
      exProgram ''b.thrift'' [] [\<lparr>SvcName = ''!'', Functions = []\<rparr>]]"

text \<open>
  A stand-in for \<^verbatim>\<open>markKeptPart\<close>: it marks the services of the program in the Mark Set
  of the file, and reports whether there was one.
\<close>

definition exMarkKeptPart :: markKeptPart where
  "exMarkKeptPart h t a f =
     (case (deref h a, marks t f) of
        (Some ast, Some s) \<Rightarrow>
          (if Services ast = [] then (False, t)
           else (True, t\<lparr>marks := (marks t)(f \<mapsto> s \<union> DeclNode a ` {..<length (Services ast)})\<rparr>))
      | _ \<Rightarrow> (False, t))"

definition exTrimmer :: "string \<Rightarrow> Trimmer" where
  "exTrimmer f = \<lparr>marks = [f \<mapsto> {}]\<rparr>"

text \<open>
  A chain: \<^verbatim>\<open>root.thrift\<close> includes \<^verbatim>\<open>mid.thrift\<close>, which includes \<^verbatim>\<open>leaf.thrift\<close>; only
  the last declares a service. The trimmer starts with an empty Mark Set for the first
  two files, and the pass is started for the root.
\<close>

definition exChainHeap :: heap where
  "exChainHeap =
     [exProgram ''root.thrift'' [(''mid.thrift'', 1)] [],
      exProgram ''mid.thrift'' [(''leaf.thrift'', 2)] [],
      exProgram ''leaf.thrift'' [] [\<lparr>SvcName = ''Leaf'', Functions = []\<rparr>]]"

definition exChainTrimmer :: Trimmer where
  "exChainTrimmer = \<lparr>marks = [''root.thrift'' \<mapsto> {}, ''mid.thrift'' \<mapsto> {}]\<rparr>"

definition exChainRun :: "(panic + bool \<times> Trimmer) option" where
  "exChainRun =
     preProcess (Suc (Suc (Suc 0))) exMarkKeptPart exChainHeap exChainTrimmer (Some 0)
       ''root.thrift''"

text \<open>The zero value after option handling and template preparation for a request.\<close>

definition exPrepared :: "string list \<Rightarrow> bool \<Rightarrow> GoBackend" where
  "exPrepared params recursive =
     (case prepareTemplates exEnv
             (prepareUtilities exEnv (exBackend\<lparr>req := exRequest params recursive\<rparr>)) of
        Inl p \<Rightarrow> exBackend
      | Inr g \<Rightarrow> g)"

text \<open>
  A recursive request for the order example on the zero value of the backend, with no
  generator parameters: streaming support is disabled.
\<close>

definition exOrderRun :: "panic + (Response \<times> GoBackend \<times> heap \<times> calls)" where
  "exOrderRun = Generate exEnv exBackend (exRequest [] True) [] exOrderHeap"

section \<open>Notions used in the statements\<close>

definition fullFile :: "string \<Rightarrow> string \<Rightarrow> Generated" where
  "fullFile filename w = \<lparr>Content = w, Name = Some filename, InsertionPoint = None\<rparr>"

definition importsFragment :: "string \<Rightarrow> Generated" where
  "importsFragment w = \<lparr>Content = w, Name = None, InsertionPoint = Some ''imports''\<rparr>"

definition suppressed :: "CodeUtils \<Rightarrow> Scope option \<Rightarrow> bool" where
  "suppressed cu scope =
     (case scope of None \<Rightarrow> True | Some s \<Rightarrow> SkipEmpty (features cu) \<and> IsEmpty s)"

text \<open>
  \<open>rendering e cu t filename scope arts\<close>: the artifacts \<open>arts\<close> are what a successful
  rendering of the scope through the template \<open>t\<close> under the file name emits. Nothing for
  a scope that is absent or suppressed as empty; otherwise the full file, whose content
  is the scope rendered with the scope as root scope, immediately followed by the
  fragment for the insertion point \<^verbatim>\<open>imports\<close>, whose content is the rendered Import List
  of the scope.
\<close>

definition rendering ::
  "env \<Rightarrow> CodeUtils \<Rightarrow> Template \<Rightarrow> string \<Rightarrow> Scope option \<Rightarrow> Generated list \<Rightarrow> bool" where
  "rendering e cu t filename scope arts =
     (if suppressed cu scope then arts = []
      else (\<exists>s w imports w2.
              scope = Some s \<and>
              ExecuteTemplate e (SetRootScope cu s) t (TName t) (ScopeData s) = Inr w \<and>
              ResolveImports e s = Inr imports \<and>
              ExecuteTemplate e (SetRootScope cu s) t ''Imports'' (ImportsData imports) = Inr w2 \<and>
              arts = [fullFile filename w, importsFragment w2]))"

text \<open>
  The functions the capability filter keeps, and the service it leaves: every function
  classified as not streaming, in source order.
\<close>

definition unary :: "env \<Rightarrow> Function \<Rightarrow> bool" where
  "unary e f = (ParseStreaming e f = Inr False)"

definition streaming :: "env \<Rightarrow> Function \<Rightarrow> bool" where
  "streaming e f = (ParseStreaming e f = Inr True)"

definition filtered :: "env \<Rightarrow> Service \<Rightarrow> Service" where
  "filtered e svc = svc\<lparr>Functions := filter (unary e) (Functions svc)\<rparr>"

text \<open>The diagnostics of the filter for one function and for one service.\<close>

definition dropWarning :: "env \<Rightarrow> string \<Rightarrow> Function \<Rightarrow> LogEntry list" where
  "dropWarning e svc f =
     (case ParseStreaming e f of
        Inl x \<Rightarrow> [Warn [msgParseFailed svc f x]]
      | Inr isStreaming \<Rightarrow> (if isStreaming then [Warn [msgSkipStreaming svc f]] else []))"

definition dropWarnings :: "env \<Rightarrow> Service \<Rightarrow> LogEntry list" where
  "dropWarnings e svc = concat (map (dropWarning e (SvcName svc)) (Functions svc))"

definition classified :: "env \<Rightarrow> Service \<Rightarrow> bool" where
  "classified e svc = (\<forall>f \<in> set (Functions svc). \<exists>b. ParseStreaming e f = Inr b)"

text \<open>
  The include relation between the programs of a store, and the programs reachable from
  a root via include edges, the root included.
\<close>

definition includeEdges :: "heap \<Rightarrow> (nat \<times> nat) set" where
  "includeEdges h =
     {(p, q). p < length h \<and> q < length h \<and>
              (\<exists>inc \<in> set (Includes (h ! p)). Reference inc = Some q)}"

definition reachable :: "heap \<Rightarrow> nat \<Rightarrow> nat set" where
  "reachable h root = (includeEdges h)\<^sup>* `` {root}"

text \<open>The programs that the references on the walker's stack point to.\<close>

definition pending :: "heap \<Rightarrow> nat option list \<Rightarrow> nat set" where
  "pending h stack = {p. Some p \<in> set stack \<and> p < length h}"

text \<open>The store after the capability filter has been applied to the program at \<open>a\<close>.\<close>

definition filteredHeap :: "env \<Rightarrow> heap \<Rightarrow> nat \<Rightarrow> heap" where
  "filteredHeap e h a = h[a := (h ! a)\<lparr>Services := map (filtered e) (Services (h ! a))\<rparr>]"

text \<open>
  One round of the loop of \<^verbatim>\<open>executeTemplates\<close> for the program at address \<open>ast\<close>: the
  log entry, the call of \<^verbatim>\<open>renderOneFile\<close>, and the assignment of its error to the
  backend.
\<close>

definition renderStep :: "env \<Rightarrow> heap \<Rightarrow> GoBackend \<Rightarrow> nat \<Rightarrow> GoBackend" where
  "renderStep e h g ast =
     (case renderOneFile e h (info g [''Processing'', Filename (h ! ast)]) ast of
        (x, g1) \<Rightarrow> g1\<lparr>err := x\<rparr>)"

text \<open>
  What a run of the pre-processing pass returned, and the Mark Set of a file in the
  trimmer it left; \<open>None\<close> when the pass did not return a result.
\<close>

definition returned :: "(panic + bool \<times> Trimmer) option \<Rightarrow> bool option" where
  "returned r = (case r of Some (Inr (ret, t)) \<Rightarrow> Some ret | _ \<Rightarrow> None)"

definition marksOf :: "(panic + bool \<times> Trimmer) option \<Rightarrow> string \<Rightarrow> node set option" where
  "marksOf r f = (case r of Some (Inr (ret, t)) \<Rightarrow> marks t f | _ \<Rightarrow> None)"

text \<open>
  \<open>loopRun e h g g' new\<close>: the backend \<open>g'\<close> is what the rounds for the programs of \<open>new\<close>, in
  that order, make of \<open>g\<close>; every call but the last succeeded, and the error of the last
  is the one the backend holds.
\<close>

definition loopRun :: "env \<Rightarrow> heap \<Rightarrow> GoBackend \<Rightarrow> GoBackend \<Rightarrow> calls \<Rightarrow> bool" where
  "loopRun e h g g' new =
     (g' = foldl (renderStep e h) g (map fst new) \<and>
      (\<forall>c \<in> set (butlast new). snd c = None) \<and>
      (new \<noteq> [] \<longrightarrow> snd (last new) = err g'))"

text \<open>
  \<open>loopCalls trees P g' new\<close>: what the loop of \<^verbatim>\<open>executeTemplates\<close> over \<open>trees\<close>, started
  with the processed set \<open>P\<close> and ended in the backend \<open>g'\<close>, guarantees of the calls
  \<open>new\<close> of \<^verbatim>\<open>renderOneFile\<close> it made.
\<close>

definition loopCalls :: "nat list \<Rightarrow> nat set \<Rightarrow> GoBackend \<Rightarrow> calls \<Rightarrow> bool" where
  "loopCalls trees P g' new =
     (distinct (map fst new) \<and> set (map fst new) \<subseteq> set trees - P \<and>
      ((\<exists>c \<in> set new. snd c \<noteq> None) \<longrightarrow> err g' \<noteq> None) \<and>
      (err g' = None \<longrightarrow> set (map fst new) = set trees - P))"

text \<open>
  \<open>unchanged g g'\<close>: the two backends differ at most in the artifacts collected and in
  the root scope stored in the utilities.
\<close>

definition unchanged :: "GoBackend \<Rightarrow> GoBackend \<Rightarrow> bool" where
  "unchanged g g' =
     (err g' = err g \<and> tpl g' = tpl g \<and> refTpl g' = refTpl g \<and>
      reflectionTpl g' = reflectionTpl g \<and> reflectionRefTpl g' = reflectionRefTpl g \<and>
      req g' = req g \<and> log g' = log g \<and> funcs g' = funcs g \<and>
      Error (res g') = Error (res g) \<and> features (utils g') = features (utils g) \<and>
      (\<forall>s. SetRootScope (utils g') s = SetRootScope (utils g) s))"

section \<open>Properties of the file names\<close>

lemma TrimSuffix_append: "TrimSuffix (b @ s) s = b"
  by (simp add: TrimSuffix_def suffix_def)

text \<open>
  Claim C8. For a main file name that ends in \<^verbatim>\<open>.go\<close>, the reference file name is the
  name with the trailing \<^verbatim>\<open>.go\<close> replaced by \<^verbatim>\<open>-ref.go\<close>, unless preserve-name mode is
  active, in which case it is the main file name itself; the reflection file name
  replaces \<^verbatim>\<open>.go\<close> by \<^verbatim>\<open>-reflection.go\<close>; the reflection-reference file name replaces
  \<^verbatim>\<open>.go\<close> by \<^verbatim>\<open>-reflection-ref.go\<close>, except under preserve-name mode, where it is the
  reflection file name. The names are functions of the mode and the main file name, so
  identical inputs yield identical names.
\<close>

theorem companion_filenames:
  "ToRefFilename False (b @ ''.go'') = b @ ''-ref.go'' \<and>
   ToRefFilename True f = f \<and>
   ToReflectionFilename (b @ ''.go'') = b @ ''-reflection.go'' \<and>
   ToReflectionRefFilename False (b @ ''.go'') = b @ ''-reflection-ref.go'' \<and>
   ToReflectionRefFilename True f = ToReflectionFilename f"
  by (simp add: ToRefFilename_def ToReflectionFilename_def ToReflectionRefFilename_def
      TrimSuffix_append)

theorem companion_filenames_witness:
  "ToRefFilename False ''out/order.go'' = ''out/order-ref.go'' \<and>
   ToRefFilename True ''out/order.go'' = ''out/order.go'' \<and>
   ToReflectionFilename ''out/order.go'' = ''out/order-reflection.go'' \<and>
   ToReflectionRefFilename False ''out/order.go'' = ''out/order-reflection-ref.go'' \<and>
   ToReflectionRefFilename True ''out/order.go'' = ''out/order-reflection.go''"
  using companion_filenames [of "''out/order''" "''out/order.go''"] by simp

section \<open>Properties of rendering one scope\<close>

text \<open>
  Claim C6. \<^verbatim>\<open>IsEmpty\<close> holds of a scope if and only if every one of its partitions
  (constants, typedefs, enums, structs, unions, exceptions, services, synthesized) is
  empty; and when empty-scope suppression is enabled, rendering a scope for which
  \<^verbatim>\<open>IsEmpty\<close> holds returns no error and leaves the backend as it was: no artifact is
  appended to the response, neither a full file nor an imports fragment.
\<close>

theorem IsEmpty_suppression:
  "(IsEmpty s \<longleftrightarrow>
      constants s = [] \<and> typedefs s = [] \<and> enums s = [] \<and> structs s = [] \<and>
      unions s = [] \<and> exceptions s = [] \<and> services s = [] \<and> synthesized s = []) \<and>
   (SkipEmpty (features (utils g)) \<and> IsEmpty s \<longrightarrow>
      renderByTemplate e g (Some s) executeTpl filename = (None, g))"
  by (simp add: IsEmpty_def renderByTemplate_def)

text \<open>
  On the example collaborators: with suppression enabled an empty scope leaves the
  backend untouched, a scope with one service is not empty, and with suppression
  disabled the same empty scope yields a full file and its imports fragment.
\<close>

theorem IsEmpty_suppression_witness:
  "SkipEmpty (features (utils (exBackend\<lparr>utils := setFeature (\<lambda>f. f\<lparr>SkipEmpty := True\<rparr>) exUtils\<rparr>))) \<and>
   IsEmpty (exScope [] [] []) \<and>
   renderByTemplate exEnv (exBackend\<lparr>utils := setFeature (\<lambda>f. f\<lparr>SkipEmpty := True\<rparr>) exUtils\<rparr>)
     (Some (exScope [] [] [])) exTemplate ''out/common.go''
     = (None, exBackend\<lparr>utils := setFeature (\<lambda>f. f\<lparr>SkipEmpty := True\<rparr>) exUtils\<rparr>) \<and>
   \<not> IsEmpty (exScope [''Audit''] [] []) \<and>
   Contents (res (snd (renderByTemplate exEnv exBackend (Some (exScope [] [] [])) exTemplate
     ''out/common.go''))) =
     [\<lparr>Content = '':'', Name = Some ''out/common.go'', InsertionPoint = None\<rparr>,
      \<lparr>Content = ''Imports:'', Name = None, InsertionPoint = Some ''imports''\<rparr>]"
  using IsEmpty_suppression [of "exScope [] [] []"
      "exBackend\<lparr>utils := setFeature (\<lambda>f. f\<lparr>SkipEmpty := True\<rparr>) exUtils\<rparr>"
      exEnv exTemplate "''out/common.go''"]
    IsEmpty_suppression [of "exScope [''Audit''] [] []" exBackend exEnv exTemplate "''x''"]
  by (simp add: exScope_def setFeature_def exUtils_def exFeatures_def exBackend_def
      renderByTemplate_def IsEmpty_def exEnv_def exExecuteTemplate_def exTemplate_def
      template_New_def SetRootScope_def appendContent_def NewResponse_def)

section \<open>Properties of post-processing\<close>

text \<open>
  Claim C9. For every path and content, \<^verbatim>\<open>PostProcess\<close> returns a nil error. When
  formatting is disabled by the feature flag, or the extension of the path is not
  \<^verbatim>\<open>.go\<close>, the content is returned unchanged and nothing is logged. When the extension
  is \<^verbatim>\<open>.go\<close> and formatting the content fails, one warning is logged and the original
  content is returned unchanged; when formatting succeeds the formatted content is
  returned.
\<close>

theorem PostProcess_never_fails:
  "fst (snd (PostProcess e g path content)) = None \<and>
   (NoFmt (features (utils g)) \<or> Ext path \<noteq> ''.go'' \<longrightarrow>
      PostProcess e g path content = (content, None, g)) \<and>
   (\<not> NoFmt (features (utils g)) \<and> Ext path = ''.go'' \<and> format_Source e content = Inl x \<longrightarrow>
      PostProcess e g path content =
        (content, None, warn g [''Failed to format '' @ path @ '': '' @ x])) \<and>
   (\<not> NoFmt (features (utils g)) \<and> Ext path = ''.go'' \<and> format_Source e content = Inr y \<longrightarrow>
      PostProcess e g path content = (y, None, g))"
  by (auto simp: PostProcess_def split: sum.splits)

theorem PostProcess_never_fails_witness:
  "\<not> NoFmt (features (utils exBackend)) \<and> Ext ''out/order.go'' = ''.go'' \<and>
   format_Source exEnv ''bad'' = Inl ''syntax error'' \<and>
   PostProcess exEnv exBackend ''out/order.go'' ''bad'' =
     (''bad'', None, warn exBackend [''Failed to format out/order.go: syntax error'']) \<and>
   Ext ''out/order.thrift'' = ''.thrift'' \<and>
   PostProcess exEnv exBackend ''out/order.thrift'' ''bad'' = (''bad'', None, exBackend) \<and>
   PostProcess exEnv exBackend ''out/order.go'' ''ok'' = (''ok; formatted'', None, exBackend)"
  using PostProcess_never_fails [of exEnv exBackend "''out/order.go''" "''bad''" "''syntax error''" "[]"]
    PostProcess_never_fails [of exEnv exBackend "''out/order.thrift''" "''bad''" "[]" "[]"]
    PostProcess_never_fails [of exEnv exBackend "''out/order.go''" "''ok''" "[]" "''ok; formatted''"]
  by (simp add: Ext_def exBackend_def exUtils_def exFeatures_def exEnv_def)

section \<open>Properties of rendering one program\<close>

lemma unchanged_refl: "unchanged g g"
  by (simp add: unchanged_def)

lemma unchanged_trans: "unchanged g g1 \<Longrightarrow> unchanged g1 g2 \<Longrightarrow> unchanged g g2"
  by (simp add: unchanged_def)

lemma renderByTemplate_unchanged:
  "renderByTemplate e g scope t filename = (x, g') \<Longrightarrow> unchanged g g'"
  by (auto simp: renderByTemplate_def unchanged_def SetRootScope_def appendContent_def Let_def
      split: option.splits if_splits sum.splits)

lemma renderByTemplate_rendering:
  assumes "renderByTemplate e g scope t filename = (None, g')"
  shows "\<exists>arts. rendering e (utils g) t filename scope arts \<and>
           Contents (res g') = Contents (res g) @ arts"
  using assms
  by (auto simp: renderByTemplate_def rendering_def suppressed_def appendContent_def Let_def
      fullFile_def importsFragment_def SetRootScope_def
      split: option.splits if_splits sum.splits)

lemma rendering_cong:
  "unchanged g g1 \<Longrightarrow> rendering e (utils g1) t fn scope arts = rendering e (utils g) t fn scope arts"
  by (auto simp: rendering_def unchanged_def suppressed_def split: option.splits)

text \<open>
  Claim C7. For every successfully rendered program, the artifacts are appended to the
  response in fixed order: those of the main file, of the reference file, then, if
  reflection is enabled, of the reflection-reference file and of the reflection file.
  Each of the four is either nothing (the scope is absent or suppressed as empty) or,
  by the definition of \<open>rendering\<close>, a full file under the file name of that unit
  immediately followed by a fragment tagged with the insertion point \<^verbatim>\<open>imports\<close> that
  holds the rendered Import List of the same scope.
\<close>

theorem renderOneFile_order:
  assumes ok: "renderOneFile e h g ast = (None, g')"
  shows "\<exists>localScope refScope m r rr rf.
           BuildRefScope e (utils g) h ast = Inr (localScope, refScope) \<and>
           rendering e (utils g) (tpl g)
             (Join e (CombineOutputPath e (utils g) (OutputPath (req g)) h ast)
                (GetFilename e (utils g) h ast))
             localScope m \<and>
           rendering e (utils g) (refTpl g)
             (ToRefFilename (KeepCodeRefName (features (utils g)))
                (Join e (CombineOutputPath e (utils g) (OutputPath (req g)) h ast)
                   (GetFilename e (utils g) h ast)))
             refScope r \<and>
           (if WithReflection (features (utils g)) then
              rendering e (utils g) (reflectionRefTpl g)
                (ToReflectionRefFilename (KeepCodeRefName (features (utils g)))
                   (Join e (CombineOutputPath e (utils g) (OutputPath (req g)) h ast)
                      (GetFilename e (utils g) h ast)))
                refScope rr \<and>
              rendering e (utils g) (reflectionTpl g)
                (ToReflectionFilename
                   (Join e (CombineOutputPath e (utils g) (OutputPath (req g)) h ast)
                      (GetFilename e (utils g) h ast)))
                localScope rf
            else rr = [] \<and> rf = []) \<and>
           Contents (res g') = Contents (res g) @ m @ r @ rr @ rf"
proof -
  let ?fn = "Join e (CombineOutputPath e (utils g) (OutputPath (req g)) h ast)
                (GetFilename e (utils g) h ast)"
  let ?keep = "KeepCodeRefName (features (utils g))"
  obtain localScope refScope where b: "BuildRefScope e (utils g) h ast = Inr (localScope, refScope)"
    using ok by (auto simp: renderOneFile_def Let_def split: sum.splits)
  obtain g1 where r1: "renderByTemplate e g localScope (tpl g) ?fn = (None, g1)"
    using ok b by (auto simp: renderOneFile_def Let_def split: option.splits prod.splits)
  have u1: "unchanged g g1" using r1 by (rule renderByTemplate_unchanged)
  obtain g2 where r2: "renderByTemplate e g1 refScope (refTpl g1) (ToRefFilename ?keep ?fn) = (None, g2)"
    using ok b r1 by (auto simp: renderOneFile_def Let_def split: option.splits prod.splits)
  have u2: "unchanged g1 g2" using r2 by (rule renderByTemplate_unchanged)
  have u02: "unchanged g g2" using u1 u2 by (rule unchanged_trans)
  obtain m where m: "rendering e (utils g) (tpl g) ?fn localScope m"
      "Contents (res g1) = Contents (res g) @ m"
    using renderByTemplate_rendering [OF r1] by blast
  obtain r where r: "rendering e (utils g1) (refTpl g1) (ToRefFilename ?keep ?fn) refScope r"
      "Contents (res g2) = Contents (res g1) @ r"
    using renderByTemplate_rendering [OF r2] by blast
  have r': "rendering e (utils g) (refTpl g) (ToRefFilename ?keep ?fn) refScope r"
    using r(1) u1 by (simp add: rendering_cong) (simp add: unchanged_def)
  show ?thesis
  proof (cases "WithReflection (features (utils g))")
    case False
    then have "WithReflection (features (utils g2)) = False"
      using u02 by (simp add: unchanged_def)
    then have "g' = g2"
      using ok b r1 r2 by (simp add: renderOneFile_def Let_def)
    then show ?thesis
      using b m r' r(2) False by auto
  next
    case True
    then have w2: "WithReflection (features (utils g2))"
      using u02 by (simp add: unchanged_def)
    obtain g3 where r3: "renderByTemplate e g2 refScope (reflectionRefTpl g2)
          (ToReflectionRefFilename ?keep ?fn) = (None, g3)"
      using ok b r1 r2 w2 by (auto simp: renderOneFile_def Let_def split: option.splits prod.splits)
    have u3: "unchanged g2 g3" using r3 by (rule renderByTemplate_unchanged)
    have u03: "unchanged g g3" using u02 u3 by (rule unchanged_trans)
    have r4: "renderByTemplate e g3 localScope (reflectionTpl g3) (ToReflectionFilename ?fn) = (None, g')"
      using ok b r1 r2 w2 r3 by (simp add: renderOneFile_def Let_def)
    obtain rr where rr: "rendering e (utils g2) (reflectionRefTpl g2)
          (ToReflectionRefFilename ?keep ?fn) refScope rr"
        "Contents (res g3) = Contents (res g2) @ rr"
      using renderByTemplate_rendering [OF r3] by blast
    obtain rf where rf: "rendering e (utils g3) (reflectionTpl g3) (ToReflectionFilename ?fn) localScope rf"
        "Contents (res g') = Contents (res g3) @ rf"
      using renderByTemplate_rendering [OF r4] by blast
    have rr': "rendering e (utils g) (reflectionRefTpl g) (ToReflectionRefFilename ?keep ?fn) refScope rr"
      using rr(1) u02 by (simp add: rendering_cong) (simp add: unchanged_def)
    have rf': "rendering e (utils g) (reflectionTpl g) (ToReflectionFilename ?fn) localScope rf"
      using rf(1) u03 by (simp add: rendering_cong) (simp add: unchanged_def)
    show ?thesis
      using b m r' r(2) rr' rr(2) rf' rf(2) True by auto
  qed
qed


text \<open>
  On the example collaborators, with reflection enabled, the root of the order example
  yields its four full files in that order, each followed by its imports fragment.
\<close>

lemma exPrepared_simp:
  "exPrepared [''reflection''] True =
     \<lparr>err = None,
      tpl = \<lparr>TName = ''thrift'', TFuncs = [(''GoName'', UtilFunc ''GoName''), (''Version'', VersionFunc ''0.3'')], TParsed = [''file'']\<rparr>,
      refTpl = \<lparr>TName = ''thrift-ref'', TFuncs = [(''GoName'', UtilFunc ''GoName''), (''Version'', VersionFunc ''0.3'')], TParsed = [''ref'']\<rparr>,
      reflectionTpl = \<lparr>TName = ''thrift-reflection'', TFuncs = [(''GoName'', UtilFunc ''GoName''), (''Version'', VersionFunc ''0.3'')], TParsed = [''reflection'']\<rparr>,
      reflectionRefTpl = \<lparr>TName = ''thrift-reflection-util'', TFuncs = [(''GoName'', UtilFunc ''GoName''), (''Version'', VersionFunc ''0.3'')], TParsed = [''reflection-ref'']\<rparr>,
      req = exRequest [''reflection''] True, res = NewResponse, log = [],
      utils = setFeature (\<lambda>f. f\<lparr>WithReflection := True\<rparr>) exUtils,
      funcs = [(''GoName'', UtilFunc ''GoName''), (''Version'', VersionFunc ''0.3'')]\<rparr>"
  by (simp add: exPrepared_def prepareTemplates_def prepareUtilities_def exBackend_def exEnv_def
      exRequest_def setFeature_def exUtils_def exFeatures_def Funcs_def template_New_def Must_def
      exTemplate_def Let_def)

theorem renderOneFile_order_witness:
  "fst (renderOneFile exEnv exOrderHeap (exPrepared [''reflection''] True) 0) = None \<and>
   Contents (res (snd (renderOneFile exEnv exOrderHeap (exPrepared [''reflection''] True) 0))) =
     [fullFile ''out/order.go'' ''thrift:OrderServiceOrderService.GetOrderOrderService.Watch'',
      importsFragment ''Imports:'',
      fullFile ''out/order-ref.go'' ''thrift-ref:common.thrift'',
      importsFragment ''Imports:common.thrift'',
      fullFile ''out/order-reflection-ref.go'' ''thrift-reflection-util:common.thrift'',
      importsFragment ''Imports:common.thrift'',
      fullFile ''out/order-reflection.go''
        ''thrift-reflection:OrderServiceOrderService.GetOrderOrderService.Watch'',
      importsFragment ''Imports:'']"
proof -
  have run: "renderOneFile exEnv exOrderHeap (exPrepared [''reflection''] True) 0 =
      (None, snd (renderOneFile exEnv exOrderHeap (exPrepared [''reflection''] True) 0))"
    by (simp add: exPrepared_simp renderOneFile_def renderByTemplate_def exEnv_def
        exBuildRefScope_def exExecuteTemplate_def exOrderHeap_def exProgram_def exFunction_def
        exLocalScope_def exRefScope_def exScope_def deref_def IsEmpty_def setFeature_def
        exUtils_def exFeatures_def SetRootScope_def appendContent_def Let_def)
  show ?thesis
    using renderOneFile_order [OF run]
    by (simp add: exPrepared_simp renderOneFile_def renderByTemplate_def exEnv_def
        exBuildRefScope_def exExecuteTemplate_def exOrderHeap_def exProgram_def exFunction_def
        exLocalScope_def exRefScope_def exScope_def deref_def IsEmpty_def setFeature_def
        exUtils_def exFeatures_def SetRootScope_def appendContent_def Let_def
        exRequest_def exFilename_def TrimSuffix_def suffix_def ToRefFilename_def
        ToReflectionFilename_def ToReflectionRefFilename_def NewResponse_def fullFile_def
        importsFragment_def)
qed

text \<open>
  Rendering a program only adds artifacts and sets the current scope of the utilities: the
  log, the request, the templates and the pending error are as before.
\<close>

lemma renderOneFile_unchanged:
  assumes "renderOneFile e h g a = (x, g')"
  shows "unchanged g g'"
proof (cases "BuildRefScope e (utils g) h a")
  case (Inl y)
  then have "g' = g" using assms by (simp add: renderOneFile_def Let_def)
  then show ?thesis by (simp add: unchanged_refl)
next
  case (Inr p)
  let ?fn = "Join e (CombineOutputPath e (utils g) (OutputPath (req g)) h a)
               (GetFilename e (utils g) h a)"
  let ?keep = "KeepCodeRefName (features (utils g))"
  obtain ls rs where p: "BuildRefScope e (utils g) h a = Inr (ls, rs)"
    using Inr by (cases p) simp
  obtain x1 g1 where r1: "renderByTemplate e g ls (tpl g) ?fn = (x1, g1)"
    by (cases "renderByTemplate e g ls (tpl g) ?fn")
  have u1: "unchanged g g1" using r1 by (rule renderByTemplate_unchanged)
  show ?thesis
  proof (cases x1)
    case (Some m)
    then have "g' = g1" using assms p r1 by (simp add: renderOneFile_def Let_def)
    then show ?thesis using u1 by simp
  next
    case None
    note n1 = None
    obtain x2 g2 where r2: "renderByTemplate e g1 rs (refTpl g1) (ToRefFilename ?keep ?fn) = (x2, g2)"
      by (cases "renderByTemplate e g1 rs (refTpl g1) (ToRefFilename ?keep ?fn)")
    have u2: "unchanged g g2"
      using u1 renderByTemplate_unchanged [OF r2] by (rule unchanged_trans)
    show ?thesis
    proof (cases x2)
      case (Some m)
      then have "g' = g2" using assms p r1 n1 r2 by (simp add: renderOneFile_def Let_def)
      then show ?thesis using u2 by simp
    next
      case None
      note n2 = None
      show ?thesis
      proof (cases "WithReflection (features (utils g2))")
        case False
        then have "g' = g2" using assms p r1 n1 r2 n2 by (simp add: renderOneFile_def Let_def)
        then show ?thesis using u2 by simp
      next
        case True
        obtain x3 g3 where r3: "renderByTemplate e g2 rs (reflectionRefTpl g2)
            (ToReflectionRefFilename ?keep ?fn) = (x3, g3)"
          by (cases "renderByTemplate e g2 rs (reflectionRefTpl g2)
            (ToReflectionRefFilename ?keep ?fn)")
        have u3: "unchanged g g3"
          using u2 renderByTemplate_unchanged [OF r3] by (rule unchanged_trans)
        show ?thesis
        proof (cases x3)
          case (Some m)
          then have "g' = g3"
            using assms p r1 n1 r2 n2 True r3 by (simp add: renderOneFile_def Let_def)
          then show ?thesis using u3 by simp
        next
          case None
          then have "renderByTemplate e g3 ls (reflectionTpl g3) (ToReflectionFilename ?fn) = (x, g')"
            using assms p r1 n1 r2 n2 True r3 by (simp add: renderOneFile_def Let_def)
          then show ?thesis
            using u3 renderByTemplate_unchanged unchanged_trans by blast
        qed
      qed
    qed
  qed
qed

lemma renderStep_log:
  "log (renderStep e h g a) = log g @ [Info [''Processing'', Filename (h ! a)]]"
proof -
  obtain x g1 where r: "renderOneFile e h (info g [''Processing'', Filename (h ! a)]) a = (x, g1)"
    by (cases "renderOneFile e h (info g [''Processing'', Filename (h ! a)]) a")
  have s: "renderStep e h g a = g1\<lparr>err := x\<rparr>"
    by (simp add: renderStep_def r)
  from renderOneFile_unchanged [OF r] show ?thesis
    unfolding s by (simp add: unchanged_def info_def)
qed

lemma foldl_renderStep_log:
  "log (foldl (renderStep e h) g as) =
     log g @ map (\<lambda>a. Info [''Processing'', Filename (h ! a)]) as"
  by (induction as arbitrary: g) (simp_all add: renderStep_log)

section \<open>Evaluation of the examples\<close>

lemmas ex_defs = exEnv_def exBackend_def
      exRequest_def exUtils_def exFeatures_def exOrderHeap_def exProgram_def exFunction_def
      exBuildRefScope_def exExecuteTemplate_def exLocalScope_def exRefScope_def exScope_def
      exFilename_def exTemplate_def setFeature_def

lemmas run_defs = Generate_def Generate_filtered_def prepareUtilities_def
      removeStreamingFunctions_def
      deref_def filtered_def unary_def dropWarnings_def
      dropWarning_def msgSkipStreaming_def msgParseFailed_def prepareTemplates_def Funcs_def template_New_def Must_def
      fillRequisitions_def executeTemplates_def DepthFirstSearch_def info_def warn_def
      renderOneFile_def renderByTemplate_def IsEmpty_def SetRootScope_def appendContent_def
      TrimSuffix_def suffix_def ToRefFilename_def ToReflectionFilename_def ToReflectionRefFilename_def
      buildResponse_def NewResponse_def BuildErrorResponse_def
      Let_def

lemma exOrderRun_eq:
  "\<exists>g. exOrderRun =
      Inr (\<lparr>Error = None,
            Contents =
              [fullFile ''out/order.go'' ''thrift:OrderServiceOrderService.GetOrder'',
               importsFragment ''Imports:'',
               fullFile ''out/order-ref.go'' ''thrift-ref:common.thrift'',
               importsFragment ''Imports:common.thrift'',
               fullFile ''out/common.go'' ''thrift:AuditAudit.Tail'',
               importsFragment ''Imports:'',
               fullFile ''out/common-ref.go'' ''thrift-ref:'',
               importsFragment ''Imports:'']\<rparr>,
           g,
           [exProgram ''order.thrift'' [(''common.thrift'', 1)]
              [\<lparr>SvcName = ''OrderService'', Functions = [exFunction ''GetOrder'' ''unary'']\<rparr>],
            exProgram ''common.thrift'' []
              [\<lparr>SvcName = ''Audit'', Functions = [exFunction ''Tail'' ''stream'']\<rparr>]],
           [(0, None), (1, None)]) \<and>
      log g = [Warn [msgSkipStreaming ''OrderService'' (exFunction ''Watch'' ''stream'')],
               Info [''Processing'', ''order.thrift''],
               Info [''Processing'', ''common.thrift'']] \<and>
      \<not> ThriftStreaming (features (utils g))"
  by (simp add: exOrderRun_def run_defs ex_defs fullFile_def importsFragment_def)

section \<open>Properties of the capability filter\<close>

lemma filterFunctions_eq:
  "filterFunctions e svc fs acc g =
     (acc @ filter (unary e) fs, g\<lparr>log := log g @ concat (map (dropWarning e svc) fs)\<rparr>)"
proof (induction fs arbitrary: acc g)
  case Nil
  then show ?case by simp
next
  case (Cons f fs)
  then show ?case
    by (cases "ParseStreaming e f") (simp_all add: unary_def dropWarning_def warn_def)
qed

lemma filterServices_eq:
  "filterServices e svcs g =
     (map (filtered e) svcs, g\<lparr>log := log g @ concat (map (dropWarnings e) svcs)\<rparr>)"
proof (induction svcs arbitrary: g)
  case Nil
  then show ?case by simp
next
  case (Cons svc svcs)
  then show ?case
    by (simp add: filterFunctions_eq filtered_def dropWarnings_def)
qed

lemma classified_count:
  assumes "classified e svc"
  shows "length (filter (unary e) (Functions svc)) =
           length (Functions svc) - length (filter (streaming e) (Functions svc))"
proof -
  have "\<forall>f \<in> set fs. \<exists>b. ParseStreaming e f = Inr b \<Longrightarrow>
          length (filter (unary e) fs) + length (filter (streaming e) fs) = length fs" for fs
    by (induction fs) (auto simp: unary_def streaming_def)
  then show ?thesis using assms by (fastforce simp: classified_def)
qed

lemma classified_warnings:
  assumes "classified e svc"
  shows "dropWarnings e svc =
           map (\<lambda>f. Warn [msgSkipStreaming (SvcName svc) f]) (filter (streaming e) (Functions svc))"
proof -
  have "\<forall>f \<in> set fs. \<exists>b. ParseStreaming e f = Inr b \<Longrightarrow>
          concat (map (dropWarning e n) fs) =
            map (\<lambda>f. Warn [msgSkipStreaming n f]) (filter (streaming e) fs)" for fs n
    by (induction fs) (auto simp: dropWarning_def streaming_def)
  then show ?thesis using assms by (simp add: classified_def dropWarnings_def)
qed

text \<open>
  Claim C2, as amended. The capability filter is applied to one program, the one whose
  address it is given; \<^verbatim>\<open>Generate\<close> gives it the root program of the request when
  streaming support is disabled. On that program the filter never panics, touches no
  other program of the store, and leaves every service present, in place and under its
  name, with exactly the functions classified as not streaming. For a service whose
  functions all classify successfully these are N - K functions, N the original number
  and K the number classified as streaming, and the warnings logged for the service are
  exactly one per dropped function, in order, each naming the service and the function.
\<close>

theorem removeStreamingFunctions_root:
  assumes "deref h ast = Some t"
  shows "\<exists>g' h'. removeStreamingFunctions e g h ast = Inr (g', h') \<and>
           length h' = length h \<and>
           (\<forall>p. p \<noteq> ast \<longrightarrow> h' ! p = h ! p) \<and>
           Filename (h' ! ast) = Filename t \<and> Includes (h' ! ast) = Includes t \<and>
           length (Services (h' ! ast)) = length (Services t) \<and>
           log g' = log g @ concat (map (dropWarnings e) (Services t)) \<and>
           (\<forall>j < length (Services t).
              SvcName (Services (h' ! ast) ! j) = SvcName (Services t ! j) \<and>
              Functions (Services (h' ! ast) ! j) = filter (unary e) (Functions (Services t ! j)) \<and>
              (classified e (Services t ! j) \<longrightarrow>
                 length (Functions (Services (h' ! ast) ! j)) =
                   length (Functions (Services t ! j)) -
                   length (filter (streaming e) (Functions (Services t ! j))) \<and>
                 dropWarnings e (Services t ! j) =
                   map (\<lambda>f. Warn [msgSkipStreaming (SvcName (Services t ! j)) f])
                     (filter (streaming e) (Functions (Services t ! j)))))"
proof -
  have valid: "ast < length h" and t: "t = h ! ast"
    using assms by (auto simp: deref_def split: if_splits)
  show ?thesis
    using assms valid
    by (simp add: removeStreamingFunctions_def filterServices_eq filtered_def
        classified_count classified_warnings)
qed

theorem removeStreamingFunctions_root_witness:
  "deref exOrderHeap 0 = Some (exOrderHeap ! 0) \<and>
   classified exEnv (Services (exOrderHeap ! 0) ! 0) \<and>
   length (Functions (Services (exOrderHeap ! 0) ! 0)) = 2 \<and>
   filter (streaming exEnv) (Functions (Services (exOrderHeap ! 0) ! 0)) =
     [exFunction ''Watch'' ''stream''] \<and>
   (\<exists>g' h'. removeStreamingFunctions exEnv exBackend exOrderHeap 0 = Inr (g', h') \<and>
      Services (h' ! 0) =
        [\<lparr>SvcName = ''OrderService'', Functions = [exFunction ''GetOrder'' ''unary'']\<rparr>] \<and>
      h' ! 1 = exOrderHeap ! 1 \<and>
      log g' = [Warn [msgSkipStreaming ''OrderService'' (exFunction ''Watch'' ''stream'')]])"
  using removeStreamingFunctions_root [of exOrderHeap 0 "exOrderHeap ! 0" exEnv exBackend]
  by (auto simp: run_defs ex_defs classified_def streaming_def)

text \<open>
  The claim as stated, for every program processed by the walker, fails on the order
  example. Streaming support is disabled and the request is recursive; the walker
  delivers the included program at address 1 and the run renders it. Its service has one
  function (N = 1), which classifies successfully as streaming (K = 1), yet after the
  run the service still has that function, and the only warning of the run is about the
  streaming function of the root program.
\<close>

theorem capability_filter_counterexample:
  "\<not> isl exOrderRun \<and>
   \<not> ThriftStreaming (features (utils (fst (snd (projr exOrderRun))))) \<and>
   1 \<in> set (DepthFirstSearch exOrderHeap 0) \<and>
   map fst (snd (snd (snd (projr exOrderRun)))) = [0, 1] \<and>
   Functions (Services (exOrderHeap ! 1) ! 0) = [exFunction ''Tail'' ''stream''] \<and>
   classified exEnv (Services (exOrderHeap ! 1) ! 0) \<and>
   filter (streaming exEnv) (Functions (Services (exOrderHeap ! 1) ! 0)) =
     [exFunction ''Tail'' ''stream''] \<and>
   Functions (Services (fst (snd (snd (projr exOrderRun))) ! 1) ! 0) =
     [exFunction ''Tail'' ''stream''] \<and>
   log (fst (snd (projr exOrderRun))) =
     [Warn [msgSkipStreaming ''OrderService'' (exFunction ''Watch'' ''stream'')],
      Info [''Processing'', ''order.thrift''],
      Info [''Processing'', ''common.thrift'']]"
proof -
  obtain g where run: "exOrderRun =
      Inr (\<lparr>Error = None,
            Contents =
              [fullFile ''out/order.go'' ''thrift:OrderServiceOrderService.GetOrder'',
               importsFragment ''Imports:'',
               fullFile ''out/order-ref.go'' ''thrift-ref:common.thrift'',
               importsFragment ''Imports:common.thrift'',
               fullFile ''out/common.go'' ''thrift:AuditAudit.Tail'',
               importsFragment ''Imports:'',
               fullFile ''out/common-ref.go'' ''thrift-ref:'',
               importsFragment ''Imports:'']\<rparr>,
           g,
           [exProgram ''order.thrift'' [(''common.thrift'', 1)]
              [\<lparr>SvcName = ''OrderService'', Functions = [exFunction ''GetOrder'' ''unary'']\<rparr>],
            exProgram ''common.thrift'' []
              [\<lparr>SvcName = ''Audit'', Functions = [exFunction ''Tail'' ''stream'']\<rparr>]],
           [(0, None), (1, None)])"
    and lg: "log g = [Warn [msgSkipStreaming ''OrderService'' (exFunction ''Watch'' ''stream'')],
               Info [''Processing'', ''order.thrift''],
               Info [''Processing'', ''common.thrift'']]"
    and st: "\<not> ThriftStreaming (features (utils g))"
    using exOrderRun_eq by blast
  have dfs: "DepthFirstSearch exOrderHeap 0 = [0, 1]"
    by (simp add: DepthFirstSearch_def exOrderHeap_def exProgram_def)
  show ?thesis
    by (simp add: run lg st dfs)
       (auto simp: exOrderHeap_def exProgram_def exFunction_def classified_def streaming_def
          exEnv_def)
qed

section \<open>Properties of the walker\<close>

lemma dfs_None: "dfs h (None # stack) visited = dfs h stack visited"
  by simp

lemma dfs_skip:
  "p \<in> set visited \<or> length h \<le> p \<Longrightarrow> dfs h (Some p # stack) visited = dfs h stack visited"
  by simp

lemma dfs_push:
  "p \<notin> set visited \<Longrightarrow> p < length h \<Longrightarrow>
     dfs h (Some p # stack) visited =
       dfs h (map Reference (Includes (h ! p)) @ stack) (visited @ [p])"
  by simp

lemma pending_Nil: "pending h [] = {}"
  by (simp add: pending_def)

lemma pending_None: "pending h (None # stack) = pending h stack"
  by (auto simp: pending_def)

lemma pending_Some:
  "pending h (Some p # stack) = (if p < length h then insert p (pending h stack) else pending h stack)"
  by (auto simp: pending_def)

lemma pending_append: "pending h (xs @ ys) = pending h xs \<union> pending h ys"
  by (auto simp: pending_def)

lemma pending_includes:
  "p < length h \<Longrightarrow> pending h (map Reference (Includes (h ! p))) = includeEdges h `` {p}"
  by (auto simp: pending_def includeEdges_def image_iff) force+

lemma dfs_extends: "set visited \<subseteq> set (dfs h stack visited)"
proof (induction h stack visited rule: dfs.induct)
  case (1 h visited)
  then show ?case by simp
next
  case (2 h r stack visited)
  show ?case
  proof (cases r)
    case None
    then show ?thesis using 2(1) by simp
  next
    case (Some p)
    show ?thesis
    proof (cases "p \<in> set visited \<or> length h \<le> p")
      case True
      then show ?thesis using 2(2) Some by simp
    next
      case False
      then have "set (visited @ [p]) \<subseteq> set (dfs h (map Reference (Includes (h ! p)) @ stack) (visited @ [p]))"
        using 2(3) Some by blast
      then show ?thesis using Some False by simp
    qed
  qed
qed

lemma dfs_distinct: "distinct visited \<Longrightarrow> distinct (dfs h stack visited)"
proof (induction h stack visited rule: dfs.induct)
  case (1 h visited)
  then show ?case by simp
next
  case (2 h r stack visited)
  show ?case
  proof (cases r)
    case None
    then show ?thesis using 2(1) 2(4) by simp
  next
    case (Some p)
    show ?thesis
    proof (cases "p \<in> set visited \<or> length h \<le> p")
      case True
      then show ?thesis using 2(2) 2(4) Some by simp
    next
      case False
      then have "distinct (visited @ [p])" using 2(4) by simp
      then have "distinct (dfs h (map Reference (Includes (h ! p)) @ stack) (visited @ [p]))"
        using 2(3) Some False by blast
      then show ?thesis using Some False by simp
    qed
  qed
qed

lemma dfs_sound:
  "set (dfs h stack visited) \<subseteq> set visited \<union> (includeEdges h)\<^sup>* `` pending h stack"
proof (induction h stack visited rule: dfs.induct)
  case (1 h visited)
  then show ?case by simp
next
  case (2 h r stack visited)
  show ?case
  proof (cases r)
    case None
    then show ?thesis using 2(1) by (simp add: pending_None)
  next
    case (Some p)
    show ?thesis
    proof (cases "p \<in> set visited \<or> length h \<le> p")
      case True
      have "pending h stack \<subseteq> pending h (Some p # stack)"
        by (auto simp: pending_Some)
      then have mono: "(includeEdges h)\<^sup>* `` pending h stack \<subseteq> (includeEdges h)\<^sup>* `` pending h (Some p # stack)"
        by blast
      have eq: "dfs h (Some p # stack) visited = dfs h stack visited"
        using True by simp
      have ih: "set (dfs h stack visited) \<subseteq> set visited \<union> (includeEdges h)\<^sup>* `` pending h stack"
        using 2(2) Some True by blast
      show ?thesis
        unfolding Some eq using ih mono by blast
    next
      case False
      then have valid: "p < length h" and fresh: "p \<notin> set visited" by auto
      let ?E = "includeEdges h"
      have ih: "set (dfs h (map Reference (Includes (h ! p)) @ stack) (visited @ [p]))
                  \<subseteq> set (visited @ [p]) \<union> ?E\<^sup>* `` pending h (map Reference (Includes (h ! p)) @ stack)"
        using 2(3) Some False by blast
      have pend: "pending h (map Reference (Includes (h ! p)) @ stack) = ?E `` {p} \<union> pending h stack"
        using valid by (simp add: pending_append pending_includes)
      have p: "p \<in> pending h (Some p # stack)" and st: "pending h stack \<subseteq> pending h (Some p # stack)"
        using valid by (auto simp: pending_Some)
      have "?E\<^sup>* `` (?E `` {p}) \<subseteq> ?E\<^sup>* `` {p}"
        by (auto intro: converse_rtrancl_into_rtrancl)
      then have "?E\<^sup>* `` (?E `` {p} \<union> pending h stack) \<subseteq> ?E\<^sup>* `` pending h (Some p # stack)"
        using p st by blast
      moreover have "p \<in> ?E\<^sup>* `` pending h (Some p # stack)"
        using p by blast
      ultimately have "set (visited @ [p]) \<union> ?E\<^sup>* `` pending h (map Reference (Includes (h ! p)) @ stack)
            \<subseteq> set visited \<union> ?E\<^sup>* `` pending h (Some p # stack)"
        unfolding pend by auto
      then show ?thesis
        unfolding Some dfs_push [OF fresh valid] using ih by blast
    qed
  qed
qed

lemma dfs_closed:
  assumes "\<forall>v \<in> set visited. includeEdges h `` {v} \<subseteq> set visited \<union> pending h stack"
  shows "(\<forall>v \<in> set (dfs h stack visited). includeEdges h `` {v} \<subseteq> set (dfs h stack visited)) \<and>
         pending h stack \<subseteq> set (dfs h stack visited)"
  using assms
proof (induction h stack visited rule: dfs.induct)
  case (1 h visited)
  then show ?case by (simp add: pending_Nil)
next
  case (2 h r stack visited)
  show ?case
  proof (cases r)
    case None
    then show ?thesis using 2(1) 2(4) by (simp add: pending_None)
  next
    case (Some p)
    show ?thesis
    proof (cases "p \<in> set visited \<or> length h \<le> p")
      case True
      have pre: "\<forall>v \<in> set visited. includeEdges h `` {v} \<subseteq> set visited \<union> pending h stack"
        using 2(4) Some True by (auto simp: pending_Some split: if_splits)
      have ih: "(\<forall>v \<in> set (dfs h stack visited). includeEdges h `` {v} \<subseteq> set (dfs h stack visited)) \<and>
         pending h stack \<subseteq> set (dfs h stack visited)"
        using 2(2) [OF Some True pre] .
      have "pending h (Some p # stack) \<subseteq> set visited \<union> pending h stack"
        using True by (auto simp: pending_Some)
      then have "pending h (Some p # stack) \<subseteq> set (dfs h stack visited)"
        using ih dfs_extends [of visited h stack] by blast
      moreover have "dfs h (Some p # stack) visited = dfs h stack visited"
        using True by simp
      ultimately show ?thesis unfolding Some using ih by simp
    next
      case False
      then have valid: "p < length h" and fresh: "p \<notin> set visited" by auto
      let ?stack = "map Reference (Includes (h ! p)) @ stack"
      have pend: "pending h ?stack = includeEdges h `` {p} \<union> pending h stack"
        using valid by (simp add: pending_append pending_includes)
      have pre: "\<forall>v \<in> set (visited @ [p]). includeEdges h `` {v} \<subseteq> set (visited @ [p]) \<union> pending h ?stack"
        using 2(4) Some valid unfolding pend by (auto simp: pending_Some)
      have ih: "(\<forall>v \<in> set (dfs h ?stack (visited @ [p])). includeEdges h `` {v} \<subseteq> set (dfs h ?stack (visited @ [p]))) \<and>
         pending h ?stack \<subseteq> set (dfs h ?stack (visited @ [p]))"
        using 2(3) [OF Some False pre] .
      have mem: "p \<in> set (dfs h ?stack (visited @ [p]))"
        using dfs_extends [of "visited @ [p]" h ?stack] by simp
      have "pending h stack \<subseteq> set (dfs h ?stack (visited @ [p]))"
        using ih unfolding pend by simp
      then have "insert p (pending h stack) \<subseteq> set (dfs h ?stack (visited @ [p]))"
        using mem by simp
      then have "pending h (Some p # stack) \<subseteq> set (dfs h ?stack (visited @ [p]))"
        using valid by (simp add: pending_Some)
      then show ?thesis
        unfolding Some dfs_push [OF fresh valid] using ih by simp
    qed
  qed
qed

lemma DepthFirstSearch_reachable:
  assumes "root < length h"
  shows "set (DepthFirstSearch h root) = reachable h root"
proof
  have "pending h [Some root] = {root}"
    using assms by (simp add: pending_Some pending_Nil)
  then show "set (DepthFirstSearch h root) \<subseteq> reachable h root"
    using dfs_sound [of h "[Some root]" "[]"] by (simp add: DepthFirstSearch_def reachable_def)
next
  let ?R = "set (DepthFirstSearch h root)"
  have cl: "(\<forall>v \<in> ?R. includeEdges h `` {v} \<subseteq> ?R) \<and> pending h [Some root] \<subseteq> ?R"
    unfolding DepthFirstSearch_def by (rule dfs_closed) simp
  have root: "root \<in> ?R"
    using cl assms by (simp add: pending_Some pending_Nil)
  have "q \<in> ?R" if "(root, q) \<in> (includeEdges h)\<^sup>*" for q
    using that
  proof (induction rule: rtrancl_induct)
    case base
    then show ?case by (rule root)
  next
    case (step y z)
    then show ?case using cl by blast
  qed
  then show "reachable h root \<subseteq> ?R"
    by (auto simp: reachable_def)
qed

lemma DepthFirstSearch_distinct: "distinct (DepthFirstSearch h root)"
  by (simp add: DepthFirstSearch_def dfs_distinct)

lemma reachable_valid: "root < length h \<Longrightarrow> q \<in> reachable h root \<Longrightarrow> q < length h"
  unfolding reachable_def
  by (auto elim: rtranclE simp: includeEdges_def)

section \<open>Properties of the loop over the programs\<close>

lemma loop_returns:
  "\<forall>a \<in> set trees. a < length h \<Longrightarrow>
     \<exists>g' cs'. executeTemplates_loop e h trees P g cs = Inr (g', cs')"
proof (induction trees arbitrary: P g cs)
  case Nil
  then show ?case by simp
next
  case (Cons ast trees)
  then show ?case
    by (cases "renderOneFile e h (info g [''Processing'', Filename (h ! ast)]) ast")
       (simp add: deref_def)
qed

lemma loopCalls_skip: "ast \<in> P \<Longrightarrow> loopCalls trees P g' new \<Longrightarrow> loopCalls (ast # trees) P g' new"
  unfolding loopCalls_def by auto

lemma loopCalls_fail: "ast \<notin> P \<Longrightarrow> err g' = Some m \<Longrightarrow> loopCalls (ast # trees) P g' [(ast, x)]"
  unfolding loopCalls_def by simp

lemma loopCalls_step:
  "ast \<notin> P \<Longrightarrow> loopCalls trees (insert ast P) g' new \<Longrightarrow>
     loopCalls (ast # trees) P g' ((ast, None) # new)"
  unfolding loopCalls_def by auto

lemma loop_calls:
  assumes "executeTemplates_loop e h trees P g cs = Inr (g', cs')"
  shows "\<exists>new. cs' = cs @ new \<and> loopCalls trees P g' new"
  using assms
proof (induction trees arbitrary: P g cs)
  case Nil
  then show ?case by (simp add: loopCalls_def)
next
  case (Cons ast trees)
  show ?case
  proof (cases "ast \<in> P")
    case True
    then have "executeTemplates_loop e h trees P g cs = Inr (g', cs')"
      using Cons.prems by simp
    from Cons.IH [OF this] obtain new where "cs' = cs @ new" "loopCalls trees P g' new"
      by blast
    then show ?thesis using True loopCalls_skip by blast
  next
    case False
    then obtain t where t: "deref h ast = Some t"
      using Cons.prems by (cases "deref h ast") simp_all
    obtain x g1 where r: "renderOneFile e h (info g [''Processing'', Filename t]) ast = (x, g1)"
      by (cases "renderOneFile e h (info g [''Processing'', Filename t]) ast")
    show ?thesis
    proof (cases x)
      case (Some m)
      then have "g' = g1\<lparr>err := x\<rparr>" and cs': "cs' = cs @ [(ast, x)]"
        using Cons.prems False t r by simp_all
      then have "err g' = Some m" using Some by simp
      then have "loopCalls (ast # trees) P g' [(ast, x)]"
        using False by (rule loopCalls_fail [rotated])
      then show ?thesis using cs' by blast
    next
      case None
      then have "executeTemplates_loop e h trees (insert ast P) (g1\<lparr>err := x\<rparr>) (cs @ [(ast, x)])
                   = Inr (g', cs')"
        using Cons.prems False t r by simp
      from Cons.IH [OF this] obtain new where new:
        "cs' = (cs @ [(ast, x)]) @ new" "loopCalls trees (insert ast P) g' new"
        by blast
      have "loopCalls (ast # trees) P g' ((ast, None) # new)"
        using False new(2) by (rule loopCalls_step)
      moreover have "cs' = cs @ (ast, None) # new"
        using new(1) None by simp
      ultimately show ?thesis by blast
    qed
  qed
qed

lemma loopRun_Nil: "loopRun e h g g []"
  by (simp add: loopRun_def)

lemma loopRun_fail:
  "deref h ast = Some t \<Longrightarrow>
   renderOneFile e h (info g [''Processing'', Filename t]) ast = (x, g1) \<Longrightarrow>
   loopRun e h g (g1\<lparr>err := x\<rparr>) [(ast, x)]"
  by (auto simp: loopRun_def renderStep_def deref_def split: if_splits)

lemma loopRun_step:
  assumes "deref h ast = Some t"
    and "renderOneFile e h (info g [''Processing'', Filename t]) ast = (None, g1)"
    and "loopRun e h (g1\<lparr>err := None\<rparr>) g' new"
  shows "loopRun e h g g' ((ast, None) # new)"
proof -
  have s: "renderStep e h g ast = g1\<lparr>err := None\<rparr>"
    using assms(1,2) by (auto simp: renderStep_def deref_def split: if_splits)
  show ?thesis
  proof (cases "new = []")
    case True
    then show ?thesis using assms(3) s by (simp add: loopRun_def)
  next
    case False
    then show ?thesis using assms(3) s by (auto simp: loopRun_def)
  qed
qed

lemma loop_run:
  assumes "executeTemplates_loop e h trees P g cs = Inr (g', cs')"
  shows "\<exists>new. cs' = cs @ new \<and> loopCalls trees P g' new \<and> loopRun e h g g' new"
  using assms
proof (induction trees arbitrary: P g cs)
  case Nil
  then show ?case by (simp add: loopCalls_def loopRun_Nil)
next
  case (Cons ast trees)
  show ?case
  proof (cases "ast \<in> P")
    case True
    then have "executeTemplates_loop e h trees P g cs = Inr (g', cs')"
      using Cons.prems by simp
    from Cons.IH [OF this] obtain new where
      "cs' = cs @ new" "loopCalls trees P g' new" "loopRun e h g g' new"
      by blast
    then show ?thesis using True loopCalls_skip by blast
  next
    case False
    then obtain t where t: "deref h ast = Some t"
      using Cons.prems by (cases "deref h ast") simp_all
    obtain x g1 where r: "renderOneFile e h (info g [''Processing'', Filename t]) ast = (x, g1)"
      by (cases "renderOneFile e h (info g [''Processing'', Filename t]) ast")
    show ?thesis
    proof (cases x)
      case (Some m)
      then have g': "g' = g1\<lparr>err := x\<rparr>" and cs': "cs' = cs @ [(ast, x)]"
        using Cons.prems False t r by simp_all
      then have "err g' = Some m" using Some by simp
      then have "loopCalls (ast # trees) P g' [(ast, x)]"
        using False by (rule loopCalls_fail [rotated])
      moreover have "loopRun e h g g' [(ast, x)]"
        unfolding g' using t r by (rule loopRun_fail)
      ultimately show ?thesis using cs' by blast
    next
      case None
      then have "executeTemplates_loop e h trees (insert ast P) (g1\<lparr>err := None\<rparr>)
                   (cs @ [(ast, None)]) = Inr (g', cs')"
        using Cons.prems False t r by simp
      from Cons.IH [OF this] obtain new where new:
        "cs' = (cs @ [(ast, None)]) @ new" "loopCalls trees (insert ast P) g' new"
        "loopRun e h (g1\<lparr>err := None\<rparr>) g' new"
        by blast
      have "loopCalls (ast # trees) P g' ((ast, None) # new)"
        using False new(2) by (rule loopCalls_step)
      moreover have "loopRun e h g g' ((ast, None) # new)"
        using t r new(3) unfolding None by (rule loopRun_step)
      moreover have "cs' = cs @ (ast, None) # new"
        using new(1) by simp
      ultimately show ?thesis by blast
    qed
  qed
qed

text \<open>
  Claim C4. A run of \<^verbatim>\<open>executeTemplates\<close> that starts without a pending error on a
  valid root never panics. The programs it renders are pairwise different addresses, and
  the backend it returns is the one obtained from the initial backend by one round of the
  loop (log entry, \<^verbatim>\<open>renderOneFile\<close>, assignment of the error) per rendered program, in
  order: each rendered program contributes its artifacts and its log entry exactly once,
  and the log grows by exactly one \<^verbatim>\<open>Processing\<close> entry per rendered program. Every call but
  the last succeeded and the error of the last call is the one left in the backend, so a
  failed call ends the loop. In recursive mode every rendered program is reachable from
  the root via include edges, and when the run ends without an error the rendered
  programs are exactly the reachable ones, so that each of them is rendered exactly once.
  Programs are told apart by their address (file identity): a program reached along two
  include paths is one address and is rendered once. In non-recursive mode the root is
  the only program rendered.
\<close>

theorem executeTemplates_walk:
  assumes "err g = None" and "AST (req g) < length h"
  shows "\<exists>g' cs. executeTemplates e h g = Inr (g', cs) \<and>
           distinct (map fst cs) \<and>
           g' = foldl (renderStep e h) g (map fst cs) \<and>
           log g' = log g @ map (\<lambda>a. Info [''Processing'', Filename (h ! a)]) (map fst cs) \<and>
           (\<forall>c \<in> set (butlast cs). snd c = None) \<and>
           (cs \<noteq> [] \<longrightarrow> snd (last cs) = err g') \<and>
           ((\<exists>c \<in> set cs. snd c \<noteq> None) \<longrightarrow> err g' \<noteq> None) \<and>
           (Recursive (req g) \<longrightarrow>
              set (map fst cs) \<subseteq> reachable h (AST (req g)) \<and>
              (err g' = None \<longrightarrow> set (map fst cs) = reachable h (AST (req g)))) \<and>
           (\<not> Recursive (req g) \<longrightarrow> map fst cs = [AST (req g)])"
proof -
  define trees where "trees = (if Recursive (req g) then DepthFirstSearch h (AST (req g))
      else [AST (req g)])"
  have ex: "executeTemplates e h g = executeTemplates_loop e h trees {} g []"
    using assms(1) by (simp add: executeTemplates_def trees_def)
  have reach: "set (DepthFirstSearch h (AST (req g))) = reachable h (AST (req g))"
    using assms(2) by (rule DepthFirstSearch_reachable)
  have "\<forall>a \<in> set trees. a < length h"
    using reach reachable_valid [OF assms(2)] assms(2) by (auto simp: trees_def)
  then obtain g' cs where run: "executeTemplates_loop e h trees {} g [] = Inr (g', cs)"
    using loop_returns by blast
  from loop_run [OF run] have c: "loopCalls trees {} g' cs" and r: "loopRun e h g g' cs"
    by simp_all
  have fold: "g' = foldl (renderStep e h) g (map fst cs)"
    and res: "\<forall>c \<in> set (butlast cs). snd c = None" "cs \<noteq> [] \<longrightarrow> snd (last cs) = err g'"
    using r by (simp_all add: loopRun_def)
  have lg: "log g' = log g @ map (\<lambda>a. Info [''Processing'', Filename (h ! a)]) (map fst cs)"
    by (subst fold) (rule foldl_renderStep_log)
  have d: "distinct (map fst cs)" and sub: "set (map fst cs) \<subseteq> set trees"
    and fail: "(\<exists>c \<in> set cs. snd c \<noteq> None) \<longrightarrow> err g' \<noteq> None"
    and all: "err g' = None \<longrightarrow> set (map fst cs) = set trees"
    using c by (simp_all add: loopCalls_def)
  have rec: "Recursive (req g) \<longrightarrow>
              set (map fst cs) \<subseteq> reachable h (AST (req g)) \<and>
              (err g' = None \<longrightarrow> set (map fst cs) = reachable h (AST (req g)))"
    using sub all reach by (auto simp: trees_def)
  have nonrec: "\<not> Recursive (req g) \<longrightarrow> map fst cs = [AST (req g)]"
  proof
    assume n: "\<not> Recursive (req g)"
    obtain x g1 where ro: "renderOneFile e h (info g [''Processing'', Filename (h ! AST (req g))])
        (AST (req g)) = (x, g1)"
      by (cases "renderOneFile e h (info g [''Processing'', Filename (h ! AST (req g))]) (AST (req g))")
    have "executeTemplates_loop e h trees {} g [] = Inr (g1\<lparr>err := x\<rparr>, [(AST (req g), x)])"
      using n assms(2) ro by (cases x) (simp_all add: trees_def deref_def)
    then show "map fst cs = [AST (req g)]" using run by simp
  qed
  show ?thesis
    unfolding ex run using d fold lg res fail rec nonrec
    by (intro exI [of _ g'] exI [of _ cs] conjI) simp_all
qed

text \<open>
  On the diamond example the four reachable programs are rendered, the shared program at
  address 3 once: one artifact \<^verbatim>\<open>out/shared.go\<close> and one log entry for it. Without the
  recursive flag only the root is rendered.
\<close>

lemma exDiamond_run:
  "\<exists>g' cs. executeTemplates exEnv exDiamondHeap (exPrepared [''streaming''] True) = Inr (g', cs) \<and>
      set (map fst cs) = {0, 1, 2, 3} \<and> length cs = 4 \<and> err g' = None \<and>
      length (Contents (res g')) = 16 \<and>
      length (filter (\<lambda>c. Name c = Some ''out/shared.go'') (Contents (res g'))) = 1 \<and>
      length (log g') = 4 \<and>
      length (filter (\<lambda>l. l = Info [''Processing'', ''shared.thrift'']) (log g')) = 1"
  by (simp add: exPrepared_def exDiamondHeap_def run_defs ex_defs) auto

lemma exDiamond_reachable: "reachable exDiamondHeap 0 = {0, 1, 2, 3}"
proof -
  have "reachable exDiamondHeap 0 = set (DepthFirstSearch exDiamondHeap 0)"
    by (rule DepthFirstSearch_reachable [symmetric]) (simp add: exDiamondHeap_def)
  also have "\<dots> = {0, 1, 2, 3}"
    by (simp add: DepthFirstSearch_def exDiamondHeap_def exProgram_def) auto
  finally show ?thesis .
qed

lemma exDiamond_root:
  "\<exists>g'. executeTemplates exEnv exDiamondHeap (exPrepared [''streaming''] False) =
            Inr (g', [(0, None)]) \<and>
      map Name (Contents (res g')) = [Some ''out/root.go'', None, Some ''out/root-ref.go'', None] \<and>
      log g' = [Info [''Processing'', ''root.thrift'']]"
  by (simp add: exPrepared_def exDiamondHeap_def run_defs ex_defs)

theorem executeTemplates_walk_witness:
  "err (exPrepared [''streaming''] True) = None \<and>
   AST (req (exPrepared [''streaming''] True)) < length exDiamondHeap \<and>
   Recursive (req (exPrepared [''streaming''] True)) \<and>
   \<not> Recursive (req (exPrepared [''streaming''] False)) \<and>
   reachable exDiamondHeap 0 = {0, 1, 2, 3} \<and>
   (\<exists>g' cs. executeTemplates exEnv exDiamondHeap (exPrepared [''streaming''] True) = Inr (g', cs) \<and>
      distinct (map fst cs) \<and> set (map fst cs) = {0, 1, 2, 3} \<and> err g' = None \<and>
      g' = foldl (renderStep exEnv exDiamondHeap) (exPrepared [''streaming''] True) (map fst cs) \<and>
      length (Contents (res g')) = 16 \<and>
      length (filter (\<lambda>c. Name c = Some ''out/shared.go'') (Contents (res g'))) = 1 \<and>
      length (log g') = 4 \<and>
      length (filter (\<lambda>l. l = Info [''Processing'', ''shared.thrift'']) (log g')) = 1) \<and>
   (\<exists>g'. executeTemplates exEnv exDiamondHeap (exPrepared [''streaming''] False) =
            Inr (g', [(0, None)]) \<and>
      g' = renderStep exEnv exDiamondHeap (exPrepared [''streaming''] False) 0 \<and>
      map Name (Contents (res g')) = [Some ''out/root.go'', None, Some ''out/root-ref.go'', None] \<and>
      log g' = [Info [''Processing'', ''root.thrift'']])"
proof -
  let ?g = "exPrepared [''streaming''] True"
  let ?nonrec = "exPrepared [''streaming''] False"
  have pre: "err ?g = None" "AST (req ?g) < length exDiamondHeap" "Recursive (req ?g)"
    and pre0: "err ?nonrec = None" "AST (req ?nonrec) < length exDiamondHeap" "\<not> Recursive (req ?nonrec)"
    by (simp_all add: exPrepared_def exDiamondHeap_def run_defs ex_defs)
  from exDiamond_run obtain g' cs where
    run: "executeTemplates exEnv exDiamondHeap ?g = Inr (g', cs)"
    and ok: "err g' = None"
    and rest: "length (Contents (res g')) = 16"
      "length (filter (\<lambda>c. Name c = Some ''out/shared.go'') (Contents (res g'))) = 1"
      "length (log g') = 4"
      "length (filter (\<lambda>l. l = Info [''Processing'', ''shared.thrift'']) (log g')) = 1"
    by blast
  have walk: "distinct (map fst cs)" "set (map fst cs) = reachable exDiamondHeap 0"
    "g' = foldl (renderStep exEnv exDiamondHeap) ?g (map fst cs)"
    using executeTemplates_walk [OF pre(1,2), of exEnv] pre(3) ok
    unfolding run by (simp_all add: exPrepared_def run_defs ex_defs)
  have rec: "\<exists>g' cs. executeTemplates exEnv exDiamondHeap ?g = Inr (g', cs) \<and>
      distinct (map fst cs) \<and> set (map fst cs) = {0, 1, 2, 3} \<and> err g' = None \<and>
      g' = foldl (renderStep exEnv exDiamondHeap) ?g (map fst cs) \<and>
      length (Contents (res g')) = 16 \<and>
      length (filter (\<lambda>c. Name c = Some ''out/shared.go'') (Contents (res g'))) = 1 \<and>
      length (log g') = 4 \<and>
      length (filter (\<lambda>l. l = Info [''Processing'', ''shared.thrift'']) (log g')) = 1"
    using run ok rest walk(1) walk(2) [unfolded exDiamond_reachable] walk(3) [symmetric]
    by (intro exI [of _ g'] exI [of _ cs]) simp
  from exDiamond_root obtain g1 where
    run0: "executeTemplates exEnv exDiamondHeap ?nonrec = Inr (g1, [(0, None)])"
    and rest0: "map Name (Contents (res g1)) = [Some ''out/root.go'', None, Some ''out/root-ref.go'', None]"
      "log g1 = [Info [''Processing'', ''root.thrift'']]"
    by auto
  have "g1 = foldl (renderStep exEnv exDiamondHeap) ?nonrec (map fst [(0::nat, None :: error option)])"
    using executeTemplates_walk [OF pre0(1,2), of exEnv]
    unfolding run0 by simp
  then have "g1 = renderStep exEnv exDiamondHeap ?nonrec 0"
    by simp
  then have nonrec: "\<exists>g'. executeTemplates exEnv exDiamondHeap ?nonrec = Inr (g', [(0, None)]) \<and>
      g' = renderStep exEnv exDiamondHeap ?nonrec 0 \<and>
      map Name (Contents (res g')) = [Some ''out/root.go'', None, Some ''out/root-ref.go'', None] \<and>
      log g' = [Info [''Processing'', ''root.thrift'']]"
    using run0 rest0 by (intro exI [of _ g1]) simp
  show ?thesis
    using pre pre0(3) exDiamond_reachable rec nonrec by (intro conjI)
qed

section \<open>Properties of generation\<close>

lemma prepareUtilities_err:
  "err (prepareUtilities e g) =
     (if err g \<noteq> None then err g
      else fst (HandleOptions e (NewCodeUtils e) (GeneratorParameters (req g))))"
  by (simp add: prepareUtilities_def Let_def split: prod.splits)

lemma removeStreamingFunctions_keeps:
  assumes "removeStreamingFunctions e g h a = Inr (g1, h1)"
  shows "g1 = g\<lparr>log := log g1\<rparr> \<and> h1 = filteredHeap e h a"
  using assms
  by (auto simp: removeStreamingFunctions_def filterServices_eq filteredHeap_def deref_def
      split: option.splits if_splits)

lemma prepareTemplates_keeps:
  assumes "prepareTemplates e g = Inr g1"
  shows "err g1 = err g \<and> res g1 = res g \<and> utils g1 = utils g \<and> req g1 = req g \<and> log g1 = log g"
  using assms
  by (auto simp: prepareTemplates_def Let_def split: if_splits sum.splits)

lemma executeTemplates_err:
  assumes "executeTemplates e h g = Inr (g', cs)"
  shows "(err g \<noteq> None \<or> (\<exists>c \<in> set cs. snd c \<noteq> None)) \<longrightarrow> err g' \<noteq> None"
proof (cases "err g = None")
  case False
  then show ?thesis using assms by (auto simp: executeTemplates_def)
next
  case True
  then obtain trees where "executeTemplates_loop e h trees {} g [] = Inr (g', cs)"
    using assms by (simp add: executeTemplates_def Let_def)
  from loop_calls [OF this] have "loopCalls trees {} g' cs" by simp
  then show ?thesis using True by (simp add: loopCalls_def)
qed

lemma Generate_filtered_response:
  assumes "Generate_filtered e g h = Inr (resp, g', h', cs)"
  shows "resp = buildResponse g' \<and>
         ((err g \<noteq> None \<or> (\<exists>c \<in> set cs. snd c \<noteq> None)) \<longrightarrow> err g' \<noteq> None)"
proof -
  obtain g1 h1 where f: "(if \<not> ThriftStreaming (features (utils g))
            then removeStreamingFunctions e g h (AST (req g)) else Inr (g, h)) = Inr (g1, h1)"
    using assms by (auto simp: Generate_filtered_def split: sum.splits)
  have e1: "err g1 = err g" and u1: "utils g1 = utils g"
  proof -
    have "g1 = g\<lparr>log := log g1\<rparr>"
      using f removeStreamingFunctions_keeps [of e g h "AST (req g)" g1 h1]
      by (auto split: if_splits)
    then have "err g1 = err (g\<lparr>log := log g1\<rparr>)" "utils g1 = utils (g\<lparr>log := log g1\<rparr>)"
      by simp_all
    then show "err g1 = err g" "utils g1 = utils g" by simp_all
  qed
  show ?thesis
  proof (cases "SkipGoGen (features (utils g1))")
    case True
    then have "resp = buildResponse g'" "g' = warn g1 [''You are skipping Thriftgo Go Code Generating'']"
      "cs = []"
      using assms f by (auto simp: Generate_filtered_def Let_def)
    then show ?thesis using e1 by (simp add: warn_def)
  next
    case False
    then obtain g2 where p: "prepareTemplates e g1 = Inr g2"
      using assms f by (auto simp: Generate_filtered_def split: sum.splits)
    then have x: "executeTemplates e h1 (fillRequisitions g2) = Inr (g', cs)" and r: "resp = buildResponse g'"
      using assms f False by (auto simp: Generate_filtered_def split: sum.splits)
    have "err (fillRequisitions g2) = err g"
      using prepareTemplates_keeps [OF p] e1 by (simp add: fillRequisitions_def)
    then show ?thesis
      using executeTemplates_err [OF x] r by simp
  qed
qed

lemma buildResponse_error:
  "err g = Some x \<Longrightarrow> buildResponse g = BuildErrorResponse x"
  by (simp add: buildResponse_def)

text \<open>
  Claim C1. For every generation request on which \<^verbatim>\<open>Generate\<close> returns: if a fatal error
  occurs during the run, that is, option handling fails, or trimming is enabled and the
  trimmer fails, or some call of \<^verbatim>\<open>renderOneFile\<close> of the run returns an error (scope
  building, import resolution or template execution failed for that file), or the
  backend still holds the error of an earlier request, then the response is a single
  Error Response: it carries one error string, the one the backend recorded, and it
  contains no artifact, whatever artifacts the backend had collected for earlier files
  of the run.
\<close>

theorem Generate_fatal_error:
  assumes run: "Generate e g0 rq lg h = Inr (resp, g', h', cs)"
    and fatal: "err g0 \<noteq> None \<or>
                fst (HandleOptions e (NewCodeUtils e) (GeneratorParameters rq)) \<noteq> None \<or>
                (TrimIDL (features (utils (prepareUtilities e
                    (g0\<lparr>req := rq, res := NewResponse, log := lg\<rparr>)))) \<and>
                 isl (fst (TrimAST e h (AST rq)))) \<or>
                (\<exists>c \<in> set cs. snd c \<noteq> None)"
  shows "\<exists>x. err g' = Some x \<and> resp = BuildErrorResponse x \<and>
             Error resp = Some x \<and> Contents resp = []"
proof -
  let ?g = "prepareUtilities e (g0\<lparr>req := rq, res := NewResponse, log := lg\<rparr>)"
  have pre: "err g0 \<noteq> None \<or>
             fst (HandleOptions e (NewCodeUtils e) (GeneratorParameters rq)) \<noteq> None
             \<Longrightarrow> err ?g \<noteq> None"
    by (auto simp: prepareUtilities_err)
  have "resp = buildResponse g' \<and> err g' \<noteq> None"
  proof (cases "TrimIDL (features (utils ?g))")
    case False
    then have f: "Generate_filtered e ?g h = Inr (resp, g', h', cs)"
      using run by (simp add: Generate_def Let_def)
    show ?thesis
      using Generate_filtered_response [OF f] fatal pre False by blast
  next
    case True
    obtain r h1 where t: "TrimAST e h (AST rq) = (r, h1)"
      by (cases "TrimAST e h (AST rq)")
    show ?thesis
    proof (cases r)
      case (Inl x)
      then have "g' = (warn (warn ?g [''You Are Using IDL Trimmer'']) [''trim error:'', x])\<lparr>err := Some x\<rparr>"
        "resp = buildResponse g'"
        using run True t by (auto simp: Generate_def Let_def)
      then show ?thesis by simp
    next
      case (Inr tr)
      let ?g1 = "warn (warn (warn ?g [''You Are Using IDL Trimmer'']) [SprintfRemoved e tr])
                   [SprintfStats e tr]"
      have f: "Generate_filtered e ?g1 h1 = Inr (resp, g', h', cs)"
        using run True t Inr by (simp add: Generate_def Let_def)
      have e1: "err ?g1 = err ?g" by (simp add: warn_def)
      have "\<not> isl (fst (TrimAST e h (AST rq)))" using t Inr by simp
      then have "err ?g \<noteq> None \<or> (\<exists>c \<in> set cs. snd c \<noteq> None)"
        using fatal pre by blast
      then show ?thesis
        using Generate_filtered_response [OF f] e1 by auto
    qed
  qed
  then obtain x where "err g' = Some x" "resp = buildResponse g'" by auto
  then show ?thesis
    by (auto simp: buildResponse_def BuildErrorResponse_def)
qed

text \<open>
  On the example collaborators the root \<^verbatim>\<open>a.thrift\<close> renders and the program it includes
  fails in the template engine: the backend has collected the four artifacts of the
  root, and the response is the Error Response without any artifact. An unknown
  generator parameter is an option-handling failure.
\<close>

lemma exFailingRun_eq:
  "\<exists>g'. Generate exEnv exBackend (exRequest [''streaming''] True) [] exFailingHeap =
      Inr (BuildErrorResponse ''out/b.go: template failed'', g', exFailingHeap,
           [(0, None), (1, Some ''out/b.go: template failed'')]) \<and>
      Contents (res g') =
        [fullFile ''out/a.go'' ''thrift:AA.Get'', importsFragment ''Imports:'',
         fullFile ''out/a-ref.go'' ''thrift-ref:b.thrift'', importsFragment ''Imports:b.thrift'']"
  by (simp add: run_defs ex_defs exFailingHeap_def fullFile_def importsFragment_def)

theorem Generate_fatal_error_witness:
  "(\<exists>g'. Generate exEnv exBackend (exRequest [''streaming''] True) [] exFailingHeap =
      Inr (BuildErrorResponse ''out/b.go: template failed'', g', exFailingHeap,
           [(0, None), (1, Some ''out/b.go: template failed'')]) \<and>
      snd (1, Some ''out/b.go: template failed'') \<noteq> (None :: string option) \<and>
      err g' = Some ''out/b.go: template failed'' \<and>
      Error (BuildErrorResponse ''out/b.go: template failed'') = Some ''out/b.go: template failed'' \<and>
      Contents (BuildErrorResponse ''out/b.go: template failed'') = [] \<and>
      Contents (res g') =
        [fullFile ''out/a.go'' ''thrift:AA.Get'', importsFragment ''Imports:'',
         fullFile ''out/a-ref.go'' ''thrift-ref:b.thrift'', importsFragment ''Imports:b.thrift'']) \<and>
   fst (HandleOptions exEnv (NewCodeUtils exEnv) (GeneratorParameters (exRequest [''bogus''] True)))
     = Some ''unknown option bogus''"
proof -
  obtain g' where run: "Generate exEnv exBackend (exRequest [''streaming''] True) [] exFailingHeap =
      Inr (BuildErrorResponse ''out/b.go: template failed'', g', exFailingHeap,
           [(0, None), (1, Some ''out/b.go: template failed'')])"
    and arts: "Contents (res g') =
        [fullFile ''out/a.go'' ''thrift:AA.Get'', importsFragment ''Imports:'',
         fullFile ''out/a-ref.go'' ''thrift-ref:b.thrift'', importsFragment ''Imports:b.thrift'']"
    using exFailingRun_eq by blast
  have "\<exists>x. err g' = Some x \<and> BuildErrorResponse ''out/b.go: template failed'' = BuildErrorResponse x \<and>
             Error (BuildErrorResponse ''out/b.go: template failed'') = Some x \<and>
             Contents (BuildErrorResponse ''out/b.go: template failed'') = []"
    by (rule Generate_fatal_error [OF run]) simp
  then have "err g' = Some ''out/b.go: template failed''"
    by (auto simp: BuildErrorResponse_def)
  moreover have "fst (HandleOptions exEnv (NewCodeUtils exEnv)
      (GeneratorParameters (exRequest [''bogus''] True))) = Some ''unknown option bogus''"
    by (simp add: exEnv_def exRequest_def)
  ultimately show ?thesis
    using run arts by (simp add: BuildErrorResponse_def)
qed

lemma Generate_skips:
  assumes "err g0 = None"
    and "HandleOptions e (NewCodeUtils e) (GeneratorParameters rq) = (None, cu)"
    and "SkipGoGen (features cu)"
    and "TrimIDL (features cu) \<longrightarrow> \<not> isl (fst (TrimAST e h (AST rq)))"
    and "\<not> ThriftStreaming (features cu) \<longrightarrow>
           AST rq < length (if TrimIDL (features cu) then snd (TrimAST e h (AST rq)) else h)"
  shows "\<exists>g'. Generate e g0 rq lg h =
             Inr (NewResponse, g',
                  (if ThriftStreaming (features cu)
                   then (if TrimIDL (features cu) then snd (TrimAST e h (AST rq)) else h)
                   else filteredHeap e
                          (if TrimIDL (features cu) then snd (TrimAST e h (AST rq)) else h) (AST rq)),
                  []) \<and>
           err g' = None \<and> res g' = NewResponse \<and>
           tpl g' = tpl g0 \<and> refTpl g' = refTpl g0 \<and>
           reflectionTpl g' = reflectionTpl g0 \<and> reflectionRefTpl g' = reflectionRefTpl g0"
proof -
  let ?g = "prepareUtilities e (g0\<lparr>req := rq, res := NewResponse, log := lg\<rparr>)"
  let ?h1 = "if TrimIDL (features cu) then snd (TrimAST e h (AST rq)) else h"
  have g: "err ?g = None" "utils ?g = cu" "res ?g = NewResponse" "req ?g = rq"
    "tpl ?g = tpl g0" "refTpl ?g = refTpl g0" "reflectionTpl ?g = reflectionTpl g0"
    "reflectionRefTpl ?g = reflectionRefTpl g0"
    using assms(1,2) by (simp_all add: prepareUtilities_def Let_def)
  have filt: "\<exists>g'. Generate_filtered e g1 ?h1 =
             Inr (NewResponse, g',
                  (if ThriftStreaming (features cu) then ?h1 else filteredHeap e ?h1 (AST rq)), []) \<and>
           err g' = None \<and> res g' = NewResponse \<and>
           tpl g' = tpl g0 \<and> refTpl g' = refTpl g0 \<and>
           reflectionTpl g' = reflectionTpl g0 \<and> reflectionRefTpl g' = reflectionRefTpl g0"
    if g1: "err g1 = None" "utils g1 = cu" "res g1 = NewResponse" "req g1 = rq"
      "tpl g1 = tpl g0" "refTpl g1 = refTpl g0" "reflectionTpl g1 = reflectionTpl g0"
      "reflectionRefTpl g1 = reflectionRefTpl g0" for g1
  proof (cases "ThriftStreaming (features cu)")
    case True
    then show ?thesis
      using g1 assms(3)
      by (simp add: Generate_filtered_def Let_def warn_def buildResponse_def)
  next
    case False
    then have "AST rq < length ?h1" using assms(5) by blast
    then show ?thesis
      using g1 assms(3) False
      by (simp add: Generate_filtered_def Let_def warn_def buildResponse_def
          removeStreamingFunctions_def filterServices_eq deref_def filteredHeap_def)
  qed
  show ?thesis
  proof (cases "TrimIDL (features cu)")
    case False
    then have "Generate e g0 rq lg h = Generate_filtered e ?g ?h1"
      using g by (simp add: Generate_def Let_def)
    then show ?thesis using filt [OF g] by simp
  next
    case True
    obtain r h1 where t: "TrimAST e h (AST rq) = (r, h1)"
      by (cases "TrimAST e h (AST rq)")
    then obtain tr where tr: "TrimAST e h (AST rq) = (Inr tr, h1)"
      using assms(4) True by (cases r) auto
    have h1: "?h1 = h1" using True tr by simp
    let ?g1 = "warn (warn (warn ?g [''You Are Using IDL Trimmer'']) [SprintfRemoved e tr])
                   [SprintfStats e tr]"
    have eq: "Generate e g0 rq lg h = Generate_filtered e ?g1 ?h1"
      unfolding h1 using g True tr by (simp add: Generate_def Let_def)
    have g1: "err ?g1 = None" "utils ?g1 = cu" "res ?g1 = NewResponse" "req ?g1 = rq"
      "tpl ?g1 = tpl g0" "refTpl ?g1 = refTpl g0" "reflectionTpl ?g1 = reflectionTpl g0"
      "reflectionRefTpl ?g1 = reflectionRefTpl g0"
      using g by (simp_all add: warn_def)
    show ?thesis using filt [OF g1] eq by simp
  qed
qed

text \<open>
  Claim C10. If the SkipGoGen feature flag is enabled and no earlier fatal error occurred
  (the backend holds no error, the options are valid, trimming is disabled or
  successful), then \<^verbatim>\<open>Generate\<close> returns the fresh response, which is not an error and
  contains no artifact; it makes no call of \<^verbatim>\<open>renderOneFile\<close> and leaves the four
  templates of the backend as they were. The capability filter still runs beforehand:
  when streaming support is disabled, the store returned is the store as the trimmer
  left it with the root program filtered.
\<close>

theorem Generate_SkipGoGen:
  assumes "err g0 = None"
    and "HandleOptions e (NewCodeUtils e) (GeneratorParameters rq) = (None, cu)"
    and "SkipGoGen (features cu)"
    and "TrimIDL (features cu) \<longrightarrow> \<not> isl (fst (TrimAST e h (AST rq)))"
    and "\<not> ThriftStreaming (features cu) \<longrightarrow>
           AST rq < length (if TrimIDL (features cu) then snd (TrimAST e h (AST rq)) else h)"
  shows "\<exists>resp g'. Generate e g0 rq lg h =
             Inr (resp, g',
                  (if ThriftStreaming (features cu)
                   then (if TrimIDL (features cu) then snd (TrimAST e h (AST rq)) else h)
                   else filteredHeap e
                          (if TrimIDL (features cu) then snd (TrimAST e h (AST rq)) else h) (AST rq)),
                  []) \<and>
           Error resp = None \<and> Contents resp = [] \<and> err g' = None \<and>
           tpl g' = tpl g0 \<and> refTpl g' = refTpl g0 \<and>
           reflectionTpl g' = reflectionTpl g0 \<and> reflectionRefTpl g' = reflectionRefTpl g0"
  using Generate_skips [OF assms, of lg] by (auto simp: NewResponse_def)

theorem Generate_SkipGoGen_witness:
  "err exBackend = None \<and>
   HandleOptions exEnv (NewCodeUtils exEnv)
       (GeneratorParameters (exRequest [''trim_idl'', ''skip_go_gen''] True)) =
     (None, setFeature (\<lambda>f. f\<lparr>TrimIDL := True, SkipGoGen := True\<rparr>) exUtils) \<and>
   SkipGoGen (features (setFeature (\<lambda>f. f\<lparr>TrimIDL := True, SkipGoGen := True\<rparr>) exUtils)) \<and>
   TrimIDL (features (setFeature (\<lambda>f. f\<lparr>TrimIDL := True, SkipGoGen := True\<rparr>) exUtils)) \<and>
   \<not> ThriftStreaming (features (setFeature (\<lambda>f. f\<lparr>TrimIDL := True, SkipGoGen := True\<rparr>) exUtils)) \<and>
   \<not> isl (fst (TrimAST exEnv exOrderHeap (AST (exRequest [''trim_idl'', ''skip_go_gen''] True)))) \<and>
   AST (exRequest [''trim_idl'', ''skip_go_gen''] True) < length exOrderHeap \<and>
   (\<exists>g'. Generate exEnv exBackend (exRequest [''trim_idl'', ''skip_go_gen''] True) [] exOrderHeap =
      Inr (NewResponse, g',
           [exProgram ''order.thrift'' [(''common.thrift'', 1)]
              [\<lparr>SvcName = ''OrderService'', Functions = [exFunction ''GetOrder'' ''unary'']\<rparr>],
            exProgram ''common.thrift'' []
              [\<lparr>SvcName = ''Audit'', Functions = [exFunction ''Tail'' ''stream'']\<rparr>]],
           []) \<and>
      err g' = None \<and> tpl g' = tpl exBackend \<and> refTpl g' = refTpl exBackend \<and>
      log g' = [Warn [''You Are Using IDL Trimmer''], Warn [''removed unused structures''],
                Warn [''structs and fields''],
                Warn [msgSkipStreaming ''OrderService'' (exFunction ''Watch'' ''stream'')],
                Warn [''You are skipping Thriftgo Go Code Generating'']])"
  using Generate_SkipGoGen [of exBackend exEnv "exRequest [''trim_idl'', ''skip_go_gen''] True"
      "setFeature (\<lambda>f. f\<lparr>TrimIDL := True, SkipGoGen := True\<rparr>) exUtils" exOrderHeap "[]"]
  by (simp add: run_defs ex_defs)

section \<open>Properties of the trimmer's pre-processing pass\<close>

lemma grows_refl: "grows t t"
  by (simp add: grows_def)

lemma grows_trans: "grows t t1 \<Longrightarrow> grows t1 t2 \<Longrightarrow> grows t t2"
  unfolding grows_def by (meson subset_trans)

lemma markInclude_grows: "markInclude t f a i = Inr t2 \<Longrightarrow> grows t t2"
  by (auto simp: markInclude_def grows_def split: option.splits)

lemma markInclude_marked:
  "markInclude t f a i = Inr t2 \<Longrightarrow> \<exists>s. marks t2 f = Some s \<and> IncludeNode a i \<in> s"
  by (auto simp: markInclude_def split: option.splits)

lemma grows_marked:
  "grows t t' \<Longrightarrow> \<exists>s. marks t f = Some s \<and> x \<in> s \<Longrightarrow> \<exists>s. marks t' f = Some s \<and> x \<in> s"
  unfolding grows_def by blast

lemma preProcess_grows:
  shows "monotonic mk \<Longrightarrow> preProcess n mk h t ast f = Some (Inr (ret', t')) \<Longrightarrow> grows t t'"
    and "monotonic mk \<Longrightarrow> preProcess_includes n mk h f a edges ret t = Some (Inr (ret', t')) \<Longrightarrow>
            grows t t' \<and> (ret \<longrightarrow> ret')"
proof (induction n mk h t ast f and n mk h f a edges ret t
    arbitrary: ret' t' and ret' t' rule: preProcess_preProcess_includes.induct)
  case (1 n mk h t filename)
  then show ?case by simp
next
  case (2 n mk h t a filename)
  from "2.prems"(2) obtain ast where d: "deref h a = Some ast"
    by (cases "deref h a") simp_all
  obtain r0 t0 where m: "mk h t a filename = (r0, t0)"
    by (cases "mk h t a filename")
  have g0: "grows t t0"
    using "2.prems"(1) m unfolding monotonic_def by (metis snd_conv)
  have "preProcess_includes n mk h filename a (enumerate 0 (Includes ast)) r0 t0 = Some (Inr (ret', t'))"
    using "2.prems"(2) d m by simp
  then have "grows t0 t'"
    using "2.IH" [OF d m [symmetric] "2.prems"(1)] by blast
  then show ?case using g0 grows_trans by blast
next
  case (3 n mk h filename a ret t)
  then show ?case by (simp add: grows_refl)
next
  case (4 mk h filename a i inc rest ret t)
  then show ?case by simp
next
  case (5 n mk h filename a i inc rest ret t)
  note run = "5.prems"(2)
  from run obtain marked t1 where c: "preProcess n mk h t (Reference inc) filename = Some (Inr (marked, t1))"
    by (auto split: option.splits sum.splits)
  have g1: "grows t t1" using "5.IH"(1) "5.prems"(1) c by blast
  show ?case
  proof (cases marked)
    case True
    then obtain t2 where mi: "markInclude t1 filename a i = Inr t2"
      using run c by (auto split: sum.splits)
    then have rest: "preProcess_includes (Suc n) mk h filename a rest True t2 = Some (Inr (ret', t'))"
      using run c True by simp
    have "grows t2 t' \<and> (True \<longrightarrow> ret')"
      using "5.IH"(2) c True mi rest "5.prems"(1) by blast
    then show ?thesis
      using g1 markInclude_grows [OF mi] grows_trans by blast
  next
    case False
    then have rest: "preProcess_includes (Suc n) mk h filename a rest ret t1 = Some (Inr (ret', t'))"
      using run c by simp
    have "grows t1 t' \<and> (ret \<longrightarrow> ret')"
      using "5.IH"(3) c False rest "5.prems"(1) by blast
    then show ?thesis using g1 grows_trans by blast
  qed
qed

lemma preProcess_includes_marks:
  assumes mono: "monotonic mk"
    and loop: "preProcess_includes (Suc n) mk h f a ((i, inc) # rest) ret t = Some (Inr (ret', t'))"
    and marked: "preProcess n mk h t (Reference inc) f = Some (Inr (True, t1))"
  shows "ret' \<and> (\<exists>s. marks t' f = Some s \<and> IncludeNode a i \<in> s)"
proof -
  obtain t2 where mi: "markInclude t1 f a i = Inr t2"
    using loop marked by (auto split: sum.splits)
  then have rest: "preProcess_includes (Suc n) mk h f a rest True t2 = Some (Inr (ret', t'))"
    using loop marked by simp
  have "grows t2 t' \<and> (True \<longrightarrow> ret')"
    using preProcess_grows(2) [OF mono rest] .
  then show ?thesis
    using markInclude_marked [OF mi] grows_marked by blast
qed

lemma preProcess_includes_append:
  "preProcess_includes n mk h f a (xs @ ys) ret t =
     (case preProcess_includes n mk h f a xs ret t of
        None \<Rightarrow> None
      | Some (Inl p) \<Rightarrow> Some (Inl p)
      | Some (Inr (r1, t1)) \<Rightarrow> preProcess_includes n mk h f a ys r1 t1)"
proof (induction xs arbitrary: ret t)
  case Nil
  then show ?case by simp
next
  case (Cons x xs)
  obtain i inc where x: "x = (i, inc)" by (cases x)
  show ?case
  proof (cases n)
    case 0
    then show ?thesis using x by simp
  next
    case (Suc m)
    show ?thesis
      unfolding Suc x
      by (simp add: Cons.IH [unfolded Suc] split: option.splits sum.splits prod.splits)
  qed
qed

text \<open>
  On an acyclic include graph the pass returns, with a result or a panic, for every
  bound above the rank of the program it starts from.
\<close>

lemma preProcess_returns:
  assumes "ranked h rank"
  shows "rank a < n \<Longrightarrow> preProcess n mk h t (Some a) f \<noteq> None"
proof (induction n arbitrary: a t)
  case 0
  then show ?case by simp
next
  case (Suc n)
  have loop: "\<forall>x \<in> set edges. snd x \<in> set (Includes ast) \<Longrightarrow> deref h a = Some ast \<Longrightarrow>
          preProcess_includes (Suc n) mk h f a edges ret t0 \<noteq> None" for edges ast ret t0
  proof (induction edges arbitrary: ret t0)
    case Nil
    then show ?case by simp
  next
    case (Cons x edges)
    obtain i inc where x: "x = (i, inc)" by (cases x)
    then have inc: "inc \<in> set (Includes (h ! a))" and a: "a < length h"
      using Cons.prems by (auto simp: deref_def split: if_splits)
    have "preProcess n mk h t0 (Reference inc) f \<noteq> None"
    proof (cases "Reference inc")
      case None
      then show ?thesis by simp
    next
      case (Some r)
      then have "rank r < rank a"
        using assms inc a unfolding ranked_def by blast
      then have "rank r < n" using Suc.prems by simp
      then show ?thesis using Suc.IH Some by simp
    qed
    then obtain res where c: "preProcess n mk h t0 (Reference inc) f = Some res"
      by auto
    have rest: "preProcess_includes (Suc n) mk h f a edges r' t' \<noteq> None" for r' t'
      using Cons.IH Cons.prems by simp
    show ?case
      unfolding x using c rest
      by (simp split: sum.splits prod.splits)
  qed
  show ?case
  proof (cases "deref h a")
    case None
    then show ?thesis by simp
  next
    case (Some ast)
    have "\<forall>x \<in> set (enumerate 0 (Includes ast)). snd x \<in> set (Includes ast)"
      by (auto simp: in_set_enumerate_eq)
    then show ?thesis
      using loop [OF _ Some] Some by (simp split: prod.splits)
  qed
qed

text \<open>
  Claim C3, amended. During trimming, for every program and each of its include edges: if
  the pre-processing of the included program, called for this edge from the loop of the
  current program, reports that it marked a declaration, then after the pre-processing
  of the current program the include edge is marked kept in the Mark Set stored under
  the file name the pass was called with, \<^verbatim>\<open>t.marks[filename]\<close>, and the pre-processing of
  the current program reports a marking as well. The file name is handed down unchanged
  along the include edges, so it names the file the pass was started for: the Mark Set
  that receives the edge is the current program's own only when the current program is
  that file. The call for the edge at position \<open>i\<close> runs on the trimmer that the loop
  over the earlier edges left behind; \<^verbatim>\<open>markKeptPart\<close> is assumed to be monotonic.
\<close>

theorem preProcess_marks_include:
  assumes mono: "monotonic mk"
    and run: "preProcess (Suc n) mk h t (Some a) filename = Some (Inr (ret', t'))"
    and prog: "deref h a = Some ast"
    and i: "i < length (Includes ast)"
    and reach: "preProcess_includes (Suc n) mk h filename a
                  (take i (enumerate 0 (Includes ast)))
                  (fst (mk h t a filename)) (snd (mk h t a filename)) = Some (Inr (ret1, t1))"
    and marked: "preProcess n mk h t1 (Reference (Includes ast ! i)) filename = Some (Inr (True, t2))"
  shows "ret' \<and> (\<exists>s. marks t' filename = Some s \<and> IncludeNode a i \<in> s)"
proof -
  let ?edges = "enumerate 0 (Includes ast)"
  have len: "i < length ?edges" using i by simp
  have nth: "?edges ! i = (i, Includes ast ! i)"
    using i by (simp add: nth_enumerate_eq)
  have split: "?edges = take i ?edges @ (i, Includes ast ! i) # drop (Suc i) ?edges"
    unfolding nth [symmetric] by (rule id_take_nth_drop [OF len])
  have "preProcess_includes (Suc n) mk h filename a ?edges
          (fst (mk h t a filename)) (snd (mk h t a filename)) = Some (Inr (ret', t'))"
    using run prog by (simp split: prod.splits)
  then have "preProcess_includes (Suc n) mk h filename a
          (take i ?edges @ (i, Includes ast ! i) # drop (Suc i) ?edges)
          (fst (mk h t a filename)) (snd (mk h t a filename)) = Some (Inr (ret', t'))"
    by (subst split [symmetric])
  then have "preProcess_includes (Suc n) mk h filename a
          ((i, Includes ast ! i) # drop (Suc i) ?edges) ret1 t1 = Some (Inr (ret', t'))"
    unfolding preProcess_includes_append using reach by simp
  then show ?thesis
    using marked by (rule preProcess_includes_marks [OF mono])
qed

text \<open>
  On the order example the included program has a service to mark, and the include edge
  of the root ends up in the Mark Set of \<^verbatim>\<open>order.thrift\<close>.
\<close>

lemma exMarkKeptPart_monotonic: "monotonic exMarkKeptPart"
  by (auto simp: monotonic_def grows_def exMarkKeptPart_def split: option.splits)

theorem preProcess_marks_include_witness:
  "monotonic exMarkKeptPart \<and>
   deref exOrderHeap 0 = Some (exOrderHeap ! 0) \<and>
   (0::nat) < length (Includes (exOrderHeap ! 0)) \<and>
   (\<exists>t1 t2 t'.
      preProcess_includes (Suc (Suc 0)) exMarkKeptPart exOrderHeap ''order.thrift'' 0
          (take 0 (enumerate 0 (Includes (exOrderHeap ! 0))))
          (fst (exMarkKeptPart exOrderHeap (exTrimmer ''order.thrift'') 0 ''order.thrift''))
          (snd (exMarkKeptPart exOrderHeap (exTrimmer ''order.thrift'') 0 ''order.thrift''))
        = Some (Inr (True, t1)) \<and>
      preProcess (Suc 0) exMarkKeptPart exOrderHeap t1
          (Reference (Includes (exOrderHeap ! 0) ! 0)) ''order.thrift''
        = Some (Inr (True, t2)) \<and>
      preProcess (Suc (Suc 0)) exMarkKeptPart exOrderHeap (exTrimmer ''order.thrift'') (Some 0)
          ''order.thrift''
        = Some (Inr (True, t')) \<and>
      marks t' ''order.thrift'' = Some {IncludeNode 0 0, DeclNode 0 0, DeclNode 1 0})"
proof -
  let ?t1 = "snd (exMarkKeptPart exOrderHeap (exTrimmer ''order.thrift'') 0 ''order.thrift'')"
  let ?t2 = "\<lparr>marks = [''order.thrift'' \<mapsto> {DeclNode 0 0, DeclNode 1 0}]\<rparr>"
  let ?t' = "\<lparr>marks = [''order.thrift'' \<mapsto> {IncludeNode 0 0, DeclNode 0 0, DeclNode 1 0}]\<rparr>"
  have m0: "exMarkKeptPart exOrderHeap (exTrimmer ''order.thrift'') 0 ''order.thrift'' =
      (True, \<lparr>marks = [''order.thrift'' \<mapsto> {DeclNode 0 0}]\<rparr>)"
    by (simp add: exMarkKeptPart_def exOrderHeap_def exProgram_def exTrimmer_def deref_def
        lessThan_Suc)
  have reach: "preProcess_includes (Suc (Suc 0)) exMarkKeptPart exOrderHeap ''order.thrift'' 0
          (take 0 (enumerate 0 (Includes (exOrderHeap ! 0))))
          (fst (exMarkKeptPart exOrderHeap (exTrimmer ''order.thrift'') 0 ''order.thrift''))
          (snd (exMarkKeptPart exOrderHeap (exTrimmer ''order.thrift'') 0 ''order.thrift''))
        = Some (Inr (True, ?t1))"
    by (simp add: m0)
  have marked: "preProcess (Suc 0) exMarkKeptPart exOrderHeap ?t1
          (Reference (Includes (exOrderHeap ! 0) ! 0)) ''order.thrift''
        = Some (Inr (True, ?t2))"
    by (simp add: m0) (auto simp: exMarkKeptPart_def exOrderHeap_def exProgram_def deref_def
        lessThan_Suc)
  have run: "preProcess (Suc (Suc 0)) exMarkKeptPart exOrderHeap (exTrimmer ''order.thrift'')
        (Some 0) ''order.thrift'' = Some (Inr (True, ?t'))"
    by (simp add: exMarkKeptPart_def exOrderHeap_def exProgram_def exTrimmer_def deref_def
        lessThan_Suc markInclude_def enumerate_eq_zip insert_commute)
  have prog: "deref exOrderHeap 0 = Some (exOrderHeap ! 0)"
    by (simp add: deref_def exOrderHeap_def)
  have i: "(0::nat) < length (Includes (exOrderHeap ! 0))"
    by (simp add: exOrderHeap_def exProgram_def)
  have "True \<and> (\<exists>s. marks ?t' ''order.thrift'' = Some s \<and> IncludeNode 0 0 \<in> s)"
    using exMarkKeptPart_monotonic run prog i reach marked
    by (rule preProcess_marks_include)
  moreover have "marks ?t' ''order.thrift'' = Some {IncludeNode 0 0, DeclNode 0 0, DeclNode 1 0}"
    by simp
  ultimately show ?thesis
    using exMarkKeptPart_monotonic prog i reach marked run
    by (intro conjI exI [of _ ?t1] exI [of _ ?t2] exI [of _ ?t'])
qed

text \<open>
  The edge is not marked in the Mark Set of the file that owns it when that file is not
  the one the pass was started for. On the chain example the pass is started for
  \<^verbatim>\<open>root.thrift\<close>. The call for the include edge of \<^verbatim>\<open>mid.thrift\<close>, on \<^verbatim>\<open>leaf.thrift\<close>,
  reports a marking; the edge \<open>IncludeNode 1 0\<close> is then recorded in the Mark Set of
  \<^verbatim>\<open>root.thrift\<close>, and the Mark Set of \<^verbatim>\<open>mid.thrift\<close> stays empty.
\<close>

theorem preProcess_marks_counterexample:
  "Filename (exChainHeap ! 1) = ''mid.thrift'' \<and>
   Reference (Includes (exChainHeap ! 1) ! 0) = Some 2 \<and>
   returned (preProcess (Suc 0) exMarkKeptPart exChainHeap exChainTrimmer (Some 2)
               ''root.thrift'') = Some True \<and>
   returned exChainRun = Some True \<and>
   marksOf exChainRun ''root.thrift'' = Some {IncludeNode 0 0, IncludeNode 1 0, DeclNode 2 0} \<and>
   marksOf exChainRun (Filename (exChainHeap ! 1)) = Some {} \<and>
   IncludeNode 1 0 \<notin> the (marksOf exChainRun (Filename (exChainHeap ! 1)))"
  by (simp add: exChainRun_def exChainHeap_def exChainTrimmer_def exMarkKeptPart_def
      exProgram_def returned_def marksOf_def deref_def markInclude_def lessThan_Suc)

end
